theory Spec2Isabelle
  imports Main "HOL-Library.Sublist"
begin

section \<open>String Analyzer API: a shallow embedding of main.py\<close>

text \<open>
  A Python \<open>str\<close> is a sequence of code points. The model covers the code points
  U+0000 .. U+00FF, one \<^typ>\<open>char\<close> each, so \<^typ>\<open>string\<close> stands for \<open>str\<close> and
  \<^const>\<open>length\<close> for \<open>len\<close>. Python integers are \<^typ>\<open>int\<close>. A \<open>dict\<close> is an
  association list in insertion order with distinct keys. Exceptions are values:
  a handler returns \<open>Inl\<close> of the exception it raises, \<open>Inr\<close> of its result otherwise.
  \<open>hashlib.sha256(v.encode()).hexdigest()\<close> and \<open>datetime.utcnow().isoformat()\<close> are
  library calls: the digest function and the clock reading are parameters of the
  functions that use them. A request handler is modelled as the Python function it
  is; the routing of FastAPI and its validation of the declared query parameters
  happen before the function is called and are not part of the model.
\<close>

subsection \<open>Strings\<close>

text \<open>\<open>str.lower()\<close> on U+0000 .. U+00FF: A-Z and the Latin-1 capitals
  U+00C0 .. U+00DE (but the multiplication sign U+00D7) move up by 32.\<close>

definition lower_char :: "char \<Rightarrow> char" where
  "lower_char c =
     (let n = (of_char c :: nat) in
      if (65 \<le> n \<and> n \<le> 90) \<or> (192 \<le> n \<and> n \<le> 222 \<and> n \<noteq> 215)
      then char_of (n + 32) else c)"

definition lower :: "string \<Rightarrow> string" where
  "lower s = map lower_char s"

text \<open>\<open>str.isspace()\<close> on one code point below U+0100, as \<open>str.split()\<close> uses it.\<close>

definition isspace :: "char \<Rightarrow> bool" where
  "isspace c =
     (let n = (of_char c :: nat) in
      (9 \<le> n \<and> n \<le> 13) \<or> (28 \<le> n \<and> n \<le> 32) \<or> n = 133 \<or> n = 160)"

text \<open>\<open>value.split()\<close>: the maximal runs of non-whitespace; \<open>cur\<close> is the word being read.\<close>

fun split_aux :: "string \<Rightarrow> string \<Rightarrow> string list" where
  "split_aux cur [] = (if cur = [] then [] else [cur])"
| "split_aux cur (c # cs) =
     (if isspace c then (if cur = [] then split_aux [] cs else cur # split_aux [] cs)
      else split_aux (cur @ [c]) cs)"

definition split :: "string \<Rightarrow> string list" where
  "split s = split_aux [] s"

text \<open>\<open>sub in s\<close> on strings: \<open>sub\<close> occurs in \<open>s\<close> as a contiguous substring.\<close>

fun startswith :: "string \<Rightarrow> string \<Rightarrow> bool" where
  "startswith [] s = True"
| "startswith (p # ps) [] = False"
| "startswith (p # ps) (c # cs) = (p = c \<and> startswith ps cs)"

fun str_in :: "string \<Rightarrow> string \<Rightarrow> bool" where
  "str_in sub [] = (sub = [])"
| "str_in sub (c # cs) = (startswith sub (c # cs) \<or> str_in sub cs)"

subsection \<open>Dictionaries\<close>

type_synonym ('k, 'v) dict = "('k \<times> 'v) list"

definition dict_keys :: "('k, 'v) dict \<Rightarrow> 'k list" where
  "dict_keys d = map fst d"

definition dict_values :: "('k, 'v) dict \<Rightarrow> 'v list" where
  "dict_values d = map snd d"

text \<open>\<open>k in d\<close>\<close>

definition dict_contains :: "'k \<Rightarrow> ('k, 'v) dict \<Rightarrow> bool" where
  "dict_contains k d = (k \<in> set (dict_keys d))"

text \<open>\<open>d.get(k, dflt)\<close>\<close>

definition dict_get :: "('k, 'v) dict \<Rightarrow> 'k \<Rightarrow> 'v \<Rightarrow> 'v" where
  "dict_get d k dflt = (case map_of d k of None \<Rightarrow> dflt | Some v \<Rightarrow> v)"

text \<open>\<open>d[k] = v\<close>: an existing key keeps its place, a new key goes to the end.\<close>

fun dict_set :: "'k \<Rightarrow> 'v \<Rightarrow> ('k, 'v) dict \<Rightarrow> ('k, 'v) dict" where
  "dict_set k v [] = [(k, v)]"
| "dict_set k v ((k', v') # d) =
     (if k' = k then (k, v) # d else (k', v') # dict_set k v d)"

subsection \<open>The property computer\<close>

record string_properties =
  length_p :: int
  is_palindrome :: bool
  unique_characters :: int
  word_count :: int
  sha256_hash :: string
  character_frequency_map :: "(char, int) dict"

text \<open>\<open>Counter(value)\<close> counts by \<open>mapping[elem] = mapping.get(elem, 0) + 1\<close> for each
  element in turn; \<open>dict(...)\<close> keeps the entries and their order.\<close>

fun count_elements :: "(char, int) dict \<Rightarrow> string \<Rightarrow> (char, int) dict" where
  "count_elements mapping [] = mapping"
| "count_elements mapping (elem # rest) =
     count_elements (dict_set elem (dict_get mapping elem 0 + 1) mapping) rest"

definition Counter :: "string \<Rightarrow> (char, int) dict" where
  "Counter s = count_elements [] s"

definition analyze_string :: "(string \<Rightarrow> string) \<Rightarrow> string \<Rightarrow> string_properties" where
  "analyze_string sha256 v =
     (let sha256_hash = sha256 v;
          normalized = lower v;
          is_palindrome = (normalized = rev normalized);
          unique_characters = int (length (remdups v));
          word_count = int (length (split v));
          character_frequency_map = Counter v
      in \<lparr>length_p = int (length v),
          is_palindrome = is_palindrome,
          unique_characters = unique_characters,
          word_count = word_count,
          sha256_hash = sha256_hash,
          character_frequency_map = character_frequency_map\<rparr>)"

subsection \<open>Stored records and the filter engine\<close>

record string_data =
  id_s :: string
  value_s :: string
  properties :: string_properties
  created_at :: string

text \<open>The \<open>filters\<close> dict: a key that is absent is \<open>None\<close>.\<close>

record filters =
  is_palindrome_f :: "bool option"
  min_length_f :: "int option"
  max_length_f :: "int option"
  word_count_f :: "int option"
  contains_character_f :: "string option"

definition empty_filters :: filters where
  "empty_filters =
     \<lparr>is_palindrome_f = None, min_length_f = None, max_length_f = None,
      word_count_f = None, contains_character_f = None\<rparr>"

text \<open>\<open>filters.get(k) is not None\<close> holds for a key that is present; the last test,
  \<open>if filters.get("contains_character")\<close>, also fails on the empty string.\<close>

definition apply_filters :: "string_data list \<Rightarrow> filters \<Rightarrow> string_data list" where
  "apply_filters strings filters =
     (let filtered = strings;
          filtered = (case is_palindrome_f filters of None \<Rightarrow> filtered
            | Some v \<Rightarrow> filter (\<lambda>s. is_palindrome (properties s) = v) filtered);
          filtered = (case min_length_f filters of None \<Rightarrow> filtered
            | Some n \<Rightarrow> filter (\<lambda>s. length_p (properties s) \<ge> n) filtered);
          filtered = (case max_length_f filters of None \<Rightarrow> filtered
            | Some n \<Rightarrow> filter (\<lambda>s. length_p (properties s) \<le> n) filtered);
          filtered = (case word_count_f filters of None \<Rightarrow> filtered
            | Some n \<Rightarrow> filter (\<lambda>s. word_count (properties s) = n) filtered);
          filtered = (case contains_character_f filters of None \<Rightarrow> filtered
            | Some ch \<Rightarrow> if ch = [] then filtered
                        else filter (\<lambda>s. str_in ch (value_s s)) filtered)
      in filtered)"

text \<open>The filter engine as the specification words it: a record passes when every
  predicate that is present holds for it.\<close>

definition passes :: "filters \<Rightarrow> string_data \<Rightarrow> bool" where
  "passes spec r =
     ((case is_palindrome_f spec of None \<Rightarrow> True | Some v \<Rightarrow> is_palindrome (properties r) = v)
      \<and> (case min_length_f spec of None \<Rightarrow> True | Some n \<Rightarrow> length_p (properties r) \<ge> n)
      \<and> (case max_length_f spec of None \<Rightarrow> True | Some n \<Rightarrow> length_p (properties r) \<le> n)
      \<and> (case word_count_f spec of None \<Rightarrow> True | Some n \<Rightarrow> word_count (properties r) = n)
      \<and> (case contains_character_f spec of None \<Rightarrow> True | Some ch \<Rightarrow> str_in ch (value_s r)))"

subsection \<open>Regular expressions\<close>

text \<open>
  The fragment of Python's \<open>re\<close> that the source uses: literals, character classes,
  concatenation, \<open>a|b\<close>, greedy \<open>r?\<close> and \<open>r+\<close>, and one capturing group. \<open>match\<close> is
  the backtracking matcher as a list of successes: every way the expression matches
  at the start of the input, in the order backtracking tries them, each with the
  input that is left and the text of group 1 (\<open>None\<close> while the group has not taken
  part). \<open>re.search\<close> takes the first success at the leftmost position that has one.
\<close>

datatype re = Eps | Lit char | Cls "char \<Rightarrow> bool" | Seq re re | Alt re re | Opt re | Plus re | Grp re

type_synonym mstate = "string \<times> string option"

fun match :: "re \<Rightarrow> mstate \<Rightarrow> mstate list" where
  "match Eps st = [st]"
| "match (Lit c) (s, g) = (case s of [] \<Rightarrow> [] | x # xs \<Rightarrow> if x = c then [(xs, g)] else [])"
| "match (Cls p) (s, g) = (case s of [] \<Rightarrow> [] | x # xs \<Rightarrow> if p x then [(xs, g)] else [])"
| "match (Seq r1 r2) st = concat (map (match r2) (match r1 st))"
| "match (Alt r1 r2) st = match r1 st @ match r2 st"
| "match (Opt r) st = match r st @ [st]"
| "match (Plus r) st =
     concat (map (\<lambda>st'. (if length (fst st') < length (fst st) then match (Plus r) st' else [])
                          @ [st'])
                 (match r st))"
| "match (Grp r) (s, g) =
     map (\<lambda>(s', _). (s', Some (take (length s - length s') s))) (match r (s, g))"

text \<open>The equation for \<open>Plus\<close> calls \<open>match (Plus r)\<close> again under a test, so it is
  applied by hand and not by the simplifier.\<close>

declare match.simps(7) [simp del]

text \<open>\<open>re.search(r, s)\<close>: \<open>None\<close> when nothing matches, else \<open>group(1)\<close> of the match.\<close>

fun search :: "re \<Rightarrow> string \<Rightarrow> string option option" where
  "search r [] = (case match r ([], None) of [] \<Rightarrow> None | (_, g) # _ \<Rightarrow> Some g)"
| "search r (c # cs) =
     (case match r (c # cs, None) of [] \<Rightarrow> search r cs | (_, g) # _ \<Rightarrow> Some g)"

fun lit :: "string \<Rightarrow> re" where
  "lit [] = Eps"
| "lit (c # cs) = Seq (Lit c) (lit cs)"

fun seq :: "re list \<Rightarrow> re" where
  "seq [] = Eps"
| "seq (r # rs) = Seq r (seq rs)"

text \<open>\<open>\d\<close>, \<open>[a-z]\<close> and the class of the two quote characters, on U+0000 .. U+00FF.\<close>

definition is_digit :: "char \<Rightarrow> bool" where
  "is_digit c = (48 \<le> (of_char c :: nat) \<and> (of_char c :: nat) \<le> 57)"

definition is_az :: "char \<Rightarrow> bool" where
  "is_az c = (97 \<le> (of_char c :: nat) \<and> (of_char c :: nat) \<le> 122)"

definition is_quote :: "char \<Rightarrow> bool" where
  "is_quote c = (c = CHR 0x27 \<or> c = CHR 0x22)"

text \<open>A \<open>ValueError\<close> with its message, \<open>str(e)\<close>.\<close>

datatype value_error = ValueError string

text \<open>
  \<open>int(ds)\<close> on a string of decimal digits, which is all \<open>(\d+)\<close> captures. CPython
  refuses a string of more than \<open>sys.get_int_max_str_digits()\<close> digits, 4300 unless
  configured otherwise, leading zeros counted, with a \<open>ValueError\<close> whose message
  names the number of digits; \<open>str_nat\<close> writes that number in decimal.
\<close>

definition int_max_str_digits :: nat where
  "int_max_str_digits = 4300"

fun str_nat :: "nat \<Rightarrow> string" where
  "str_nat n =
     (if n < 10 then [char_of (48 + n)]
      else str_nat (n div 10) @ [char_of (48 + n mod 10)])"

declare str_nat.simps [simp del]

definition int_limit_message :: "nat \<Rightarrow> string" where
  "int_limit_message n =
     ''Exceeds the limit (4300 digits) for integer string conversion: value has ''
     @ str_nat n @ '' digits; use sys.set_int_max_str_digits() to increase the limit''"

definition int_value :: "string \<Rightarrow> int" where
  "int_value ds = foldl (\<lambda>acc c. 10 * acc + (int (of_char c) - 48)) 0 ds"

definition py_int :: "string \<Rightarrow> value_error + int" where
  "py_int ds =
     (if int_max_str_digits < length ds then Inl (ValueError (int_limit_message (length ds)))
      else Inr (int_value ds))"

text \<open>The six patterns of the source:
  \<^verbatim>\<open>longer than (\d+)\<close>, \<^verbatim>\<open>shorter than (\d+)\<close>, \<^verbatim>\<open>at least (\d+) characters?\<close>,
  \<^verbatim>\<open>at most (\d+) characters?\<close>, \<^verbatim>\<open>exactly (\d+) characters?\<close> and
  \<^verbatim>\<open>contain(?:s|ing)? (?:the )?(?:letter |character )?['"]?([a-z])['"]?\<close>.\<close>

definition longer_re :: re where
  "longer_re = seq [lit ''longer than '', Grp (Plus (Cls is_digit))]"

definition shorter_re :: re where
  "shorter_re = seq [lit ''shorter than '', Grp (Plus (Cls is_digit))]"

definition at_least_re :: re where
  "at_least_re =
     seq [lit ''at least '', Grp (Plus (Cls is_digit)), lit '' character'', Opt (Lit CHR ''s'')]"

definition at_most_re :: re where
  "at_most_re =
     seq [lit ''at most '', Grp (Plus (Cls is_digit)), lit '' character'', Opt (Lit CHR ''s'')]"

definition exactly_re :: re where
  "exactly_re =
     seq [lit ''exactly '', Grp (Plus (Cls is_digit)), lit '' character'', Opt (Lit CHR ''s'')]"

definition contains_re :: re where
  "contains_re =
     seq [lit ''contain'', Opt (Alt (lit ''s'') (lit ''ing'')), lit '' '', Opt (lit ''the ''),
          Opt (Alt (lit ''letter '') (lit ''character '')), Opt (Cls is_quote),
          Grp (Cls is_az), Opt (Cls is_quote)]"

subsection \<open>The phrase interpreter\<close>

text \<open>
  \<open>parse_natural_language_query\<close> runs its rules one after the other; each reads the
  lower-cased query and may write into the \<open>filters\<close> dict, and a rule that calls
  \<open>int\<close> may raise instead. So each rule is a step from the dict before it to the
  dict after it or to the exception, and an exception ends the run: the later rules
  and the final checks are not reached. A match object is used only through
  \<open>m.group(1)\<close>, the text of the group; every pattern of the source goes through its
  group whenever it matches (\<open>search_group\<close> below), so a match always carries that
  text.
\<close>

definition and_then ::
  "value_error + filters \<Rightarrow> (filters \<Rightarrow> value_error + filters) \<Rightarrow> value_error + filters" where
  "and_then r rule = (case r of Inl e \<Rightarrow> Inl e | Inr filters \<Rightarrow> rule filters)"

text \<open>\<open>if "palindrom" in query_lower\<close>\<close>

definition palindrome_rule :: "string \<Rightarrow> filters \<Rightarrow> value_error + filters" where
  "palindrome_rule query_lower filters =
     Inr (if str_in ''palindrom'' query_lower
          then filters\<lparr>is_palindrome_f := Some True\<rparr> else filters)"

text \<open>\<open>if "single word" in query_lower or "one word" in query_lower ... elif ... elif ...\<close>\<close>

definition word_count_rule :: "string \<Rightarrow> filters \<Rightarrow> value_error + filters" where
  "word_count_rule query_lower filters =
     Inr (if str_in ''single word'' query_lower \<or> str_in ''one word'' query_lower
          then filters\<lparr>word_count_f := Some 1\<rparr>
          else if str_in ''two word'' query_lower
          then filters\<lparr>word_count_f := Some 2\<rparr>
          else if str_in ''three word'' query_lower
          then filters\<lparr>word_count_f := Some 3\<rparr> else filters)"

text \<open>\<open>longer_match\<close>, \<open>shorter_match\<close>, \<open>at_least_match\<close>, \<open>at_most_match\<close>, \<open>exactly_match\<close>:
  \<open>int(m.group(1))\<close> is evaluated before the assignment.\<close>

definition longer_rule :: "string \<Rightarrow> filters \<Rightarrow> value_error + filters" where
  "longer_rule query_lower filters =
     (case search longer_re query_lower of
        Some (Some g) \<Rightarrow>
          (case py_int g of Inl e \<Rightarrow> Inl e
           | Inr n \<Rightarrow> Inr (filters\<lparr>min_length_f := Some (n + 1)\<rparr>))
      | _ \<Rightarrow> Inr filters)"

definition shorter_rule :: "string \<Rightarrow> filters \<Rightarrow> value_error + filters" where
  "shorter_rule query_lower filters =
     (case search shorter_re query_lower of
        Some (Some g) \<Rightarrow>
          (case py_int g of Inl e \<Rightarrow> Inl e
           | Inr n \<Rightarrow> Inr (filters\<lparr>max_length_f := Some (n - 1)\<rparr>))
      | _ \<Rightarrow> Inr filters)"

definition at_least_rule :: "string \<Rightarrow> filters \<Rightarrow> value_error + filters" where
  "at_least_rule query_lower filters =
     (case search at_least_re query_lower of
        Some (Some g) \<Rightarrow>
          (case py_int g of Inl e \<Rightarrow> Inl e
           | Inr n \<Rightarrow> Inr (filters\<lparr>min_length_f := Some n\<rparr>))
      | _ \<Rightarrow> Inr filters)"

definition at_most_rule :: "string \<Rightarrow> filters \<Rightarrow> value_error + filters" where
  "at_most_rule query_lower filters =
     (case search at_most_re query_lower of
        Some (Some g) \<Rightarrow>
          (case py_int g of Inl e \<Rightarrow> Inl e
           | Inr n \<Rightarrow> Inr (filters\<lparr>max_length_f := Some n\<rparr>))
      | _ \<Rightarrow> Inr filters)"

definition exactly_rule :: "string \<Rightarrow> filters \<Rightarrow> value_error + filters" where
  "exactly_rule query_lower filters =
     (case search exactly_re query_lower of
        Some (Some g) \<Rightarrow>
          (case py_int g of Inl e \<Rightarrow> Inl e
           | Inr n \<Rightarrow> Inr (filters\<lparr>min_length_f := Some n, max_length_f := Some n\<rparr>))
      | _ \<Rightarrow> Inr filters)"

text \<open>\<open>contains_match\<close>\<close>

definition contains_rule :: "string \<Rightarrow> filters \<Rightarrow> value_error + filters" where
  "contains_rule query_lower filters =
     Inr (case search contains_re query_lower of
            Some (Some g) \<Rightarrow> filters\<lparr>contains_character_f := Some g\<rparr>
          | _ \<Rightarrow> filters)"

text \<open>\<open>if "first vowel" in query_lower\<close>\<close>

definition first_vowel_rule :: "string \<Rightarrow> filters \<Rightarrow> value_error + filters" where
  "first_vowel_rule query_lower filters =
     Inr (if str_in ''first vowel'' query_lower
          then filters\<lparr>contains_character_f := Some ''a''\<rparr> else filters)"

text \<open>The rules in the order of the source, from the empty dict: the \<open>filters\<close> dict
  when all of them have run, or the exception that one of them raised.\<close>

definition parse_rules :: "string \<Rightarrow> value_error + filters" where
  "parse_rules query =
     (let query_lower = lower query
      in fold (\<lambda>rule r. and_then r (rule query_lower))
           [palindrome_rule, word_count_rule, longer_rule, shorter_rule, at_least_rule,
            at_most_rule, exactly_rule, contains_rule, first_vowel_rule]
           (Inr empty_filters))"

definition ConflictError :: value_error where
  "ConflictError =
     ValueError ''Conflicting filters: min_length cannot be greater than max_length''"

definition NoMatchError :: value_error where
  "NoMatchError = ValueError ''Unable to parse natural language query''"

text \<open>The two checks that end \<open>parse_natural_language_query\<close>, on the filters the
  rules have built; an exception of a rule leaves the function as it is.\<close>

definition conflicting :: "filters \<Rightarrow> bool" where
  "conflicting filters =
     (case min_length_f filters of None \<Rightarrow> False
      | Some lo \<Rightarrow> (case max_length_f filters of None \<Rightarrow> False | Some hi \<Rightarrow> lo > hi))"

definition parse_natural_language_query :: "string \<Rightarrow> value_error + filters" where
  "parse_natural_language_query query =
     (case parse_rules query of
        Inl e \<Rightarrow> Inl e
      | Inr filters \<Rightarrow>
          if conflicting filters then Inl ConflictError
          else if filters = empty_filters then Inl NoMatchError
          else Inr filters)"

subsection \<open>The record store and the request handlers\<close>

type_synonym store = "(string, string_data) dict"

datatype http_exception = HTTPException (status_code: nat) (detail: string)

record filtered_response =
  data :: "string_data list"
  count :: int
  filters_applied :: filters

record interpreted_query =
  original :: string
  parsed_filters :: filters

record natural_language_response =
  data_nl :: "string_data list"
  count_nl :: int
  interpreted_query :: interpreted_query

text \<open>\<open>create_string\<close>: \<open>utcnow\<close> is the text of \<open>datetime.utcnow().isoformat()\<close>. The
  handler returns its outcome and the store it leaves behind.\<close>

definition create_string ::
  "(string \<Rightarrow> string) \<Rightarrow> string \<Rightarrow> store \<Rightarrow> string \<Rightarrow> (http_exception + string_data) \<times> store" where
  "create_string sha256 utcnow string_store v =
     (let properties = analyze_string sha256 v;
          string_id = sha256_hash properties
      in if dict_contains string_id string_store
         then (Inl (HTTPException 409 ''String already exists in the system''), string_store)
         else (let created_at = utcnow @ ''Z'';
                   string_data = \<lparr>id_s = string_id, value_s = v,
                                  properties = properties, created_at = created_at\<rparr>
               in (Inr string_data, dict_set string_id string_data string_store)))"

text \<open>\<open>list_strings_with_filters\<close>, the body of the handler; it only reads the store.
  The primed names are the handler's parameters, \<open>None\<close> when not supplied.\<close>

definition list_strings_with_filters ::
  "store \<Rightarrow> bool option \<Rightarrow> int option \<Rightarrow> int option \<Rightarrow> int option \<Rightarrow> string option
     \<Rightarrow> http_exception + filtered_response" where
  "list_strings_with_filters string_store is_palindrome' min_length' max_length' word_count'
       contains_character' =
     (if (case min_length' of None \<Rightarrow> False
          | Some lo \<Rightarrow> (case max_length' of None \<Rightarrow> False | Some hi \<Rightarrow> lo > hi))
      then Inl (HTTPException 400 ''min_length cannot be greater than max_length'')
      else (let filters = \<lparr>is_palindrome_f = is_palindrome', min_length_f = min_length',
                            max_length_f = max_length', word_count_f = word_count',
                            contains_character_f = contains_character'\<rparr>;
                all_strings = dict_values string_store;
                filtered_strings = apply_filters all_strings filters
            in Inr \<lparr>data = filtered_strings, count = int (length filtered_strings),
                    filters_applied = filters\<rparr>))"

text \<open>\<open>filter_by_natural_language\<close>: a \<open>ValueError\<close> whose lower-cased message contains
  "conflicting" becomes status 422, any other becomes status 400.\<close>

definition filter_by_natural_language ::
  "store \<Rightarrow> string \<Rightarrow> http_exception + natural_language_response" where
  "filter_by_natural_language string_store query =
     (case parse_natural_language_query query of
        Inl (ValueError e) \<Rightarrow>
          if str_in ''conflicting'' (lower e) then Inl (HTTPException 422 e)
          else Inl (HTTPException 400 (''Unable to parse natural language query: '' @ e))
      | Inr filters \<Rightarrow>
          (let all_strings = dict_values string_store;
               filtered_strings = apply_filters all_strings filters
           in Inr \<lparr>data_nl = filtered_strings, count_nl = int (length filtered_strings),
                   interpreted_query = \<lparr>original = query, parsed_filters = filters\<rparr>\<rparr>))"

text \<open>The failure of \<open>create_string\<close> on a hash that is already stored.\<close>

definition DuplicateError :: http_exception where
  "DuplicateError = HTTPException 409 ''String already exists in the system''"

text \<open>A sample stored record for a string, with the identity in the place of the digest.\<close>

definition rec_of :: "string \<Rightarrow> string_data" where
  "rec_of v = \<lparr>id_s = v, value_s = v, properties = analyze_string (\<lambda>s. s) v, created_at = ''t''\<rparr>"

subsection \<open>The phrase patterns as the specification words them\<close>

text \<open>
  The specification describes the numeric rules by phrases, "longer than N",
  "at least N character(s)" and so on. \<open>num_at kw after s\<close> is the number \<open>N\<close>, as
  its digits, when \<open>s\<close> begins with the keyword \<open>kw\<close>, then the whole number \<open>N\<close>,
  then the text \<open>after\<close>; \<open>first_number kw after s\<close> is the number at the leftmost
  place of \<open>s\<close> where such a phrase begins. They are compared below with the regular
  expressions of the source.
\<close>

definition num_at :: "string \<Rightarrow> string \<Rightarrow> string \<Rightarrow> string option" where
  "num_at kw after s =
     (let t = drop (length kw) s; ds = takeWhile is_digit t
      in if startswith kw s \<and> ds \<noteq> [] \<and> startswith after (dropWhile is_digit t)
         then Some ds else None)"

fun first_number :: "string \<Rightarrow> string \<Rightarrow> string \<Rightarrow> string option" where
  "first_number kw after [] = None"
| "first_number kw after (c # cs) =
     (case num_at kw after (c # cs) of Some ds \<Rightarrow> Some ds | None \<Rightarrow> first_number kw after cs)"

text \<open>
  The conversion of a number fails when it has too many digits. \<open>numbers_ok s\<close> says
  that no length phrase of \<open>s\<close> has such a number: at each of the five kinds of
  phrase, the leftmost number, if there is one, has at most 4300 digits.
\<close>

definition within_limit :: "string option \<Rightarrow> bool" where
  "within_limit r = (case r of None \<Rightarrow> True | Some ds \<Rightarrow> length ds \<le> int_max_str_digits)"

definition numbers_ok :: "string \<Rightarrow> bool" where
  "numbers_ok s =
     (within_limit (first_number ''longer than '' [] s)
      \<and> within_limit (first_number ''shorter than '' [] s)
      \<and> within_limit (first_number ''at least '' '' character'' s)
      \<and> within_limit (first_number ''at most '' '' character'' s)
      \<and> within_limit (first_number ''exactly '' '' character'' s))"

text \<open>\<open>letter_next u\<close>: \<open>u\<close> begins with a lowercase letter, or with a quote and then a
  lowercase letter.\<close>

definition letter_next :: "string \<Rightarrow> bool" where
  "letter_next u =
     (case u of [] \<Rightarrow> False
      | x # xs \<Rightarrow> is_az x \<or> (is_quote x \<and> (case xs of [] \<Rightarrow> False | y # _ \<Rightarrow> is_az y)))"


section \<open>Properties\<close>

subsection \<open>Dictionaries and counting\<close>

lemma dict_keys_set:
  "dict_keys (dict_set k v d) = (if k \<in> set (dict_keys d) then dict_keys d else dict_keys d @ [k])"
  by (induction d) (force simp: dict_keys_def)+

lemma dict_keys_Nil: "dict_keys [] = []"
  by (simp add: dict_keys_def)

lemma dict_values_Nil: "dict_values [] = []"
  by (simp add: dict_values_def)

lemma dict_set_sum:
  "sum_list (dict_values (dict_set k (dict_get d k 0 + 1) d)) = sum_list (dict_values d) + (1::int)"
proof -
  have "sum_list (dict_values (dict_set k (dict_get d k 0 + v) d)) = sum_list (dict_values d) + v"
    for v :: int
    by (induction d) (auto simp: dict_values_def dict_get_def)
  then show ?thesis .
qed

lemma map_of_dict_set:
  "map_of (dict_set k v d) = (map_of d)(k \<mapsto> v)"
  by (induction d) (auto simp: fun_eq_iff)

lemma count_elements_keys_distinct:
  "distinct (dict_keys m) \<Longrightarrow> distinct (dict_keys (count_elements m s))"
  by (induction s arbitrary: m) (auto simp: dict_keys_set)

lemma count_elements_keys_set:
  "set (dict_keys (count_elements m s)) = set (dict_keys m) \<union> set s"
  by (induction s arbitrary: m) (auto simp: dict_keys_set)

lemma count_elements_sum:
  "sum_list (dict_values (count_elements m s)) = sum_list (dict_values m) + int (length s)"
  by (induction s arbitrary: m) (auto simp: dict_set_sum)

lemma count_elements_lookup:
  "dict_get (count_elements m s) c 0 = dict_get m c 0 + int (count_list s c)"
  by (induction s arbitrary: m) (auto simp: dict_get_def map_of_dict_set)

subsection \<open>Palindromes\<close>

text \<open>
  C7. For every string \<open>s\<close>, the palindrome flag computed by \<open>analyze_string\<close> is true
  if and only if the lower-cased \<open>s\<close> equals its own reversal. The test ignores case
  and nothing else: "Racecar" and the empty string are palindromes, "hello" is not,
  and "nurses run", a palindrome only once its space is dropped, is not.
\<close>

theorem analyze_string_is_palindrome:
  "is_palindrome (analyze_string sha256 s) = (lower s = rev (lower s))
   \<and> is_palindrome (analyze_string sha256 ''Racecar'') = True
   \<and> is_palindrome (analyze_string sha256 ''hello'') = False
   \<and> is_palindrome (analyze_string sha256 '''') = True
   \<and> is_palindrome (analyze_string sha256 ''nurses run'') = False"
proof -
  have gen: "is_palindrome (analyze_string sha256 v) = (lower v = rev (lower v))" for v
    by (simp add: analyze_string_def Let_def)
  have a: "lower ''Racecar'' = rev (lower ''Racecar'')" by code_simp
  have b: "lower ''hello'' \<noteq> rev (lower ''hello'')" by code_simp
  have c: "lower '''' = rev (lower '''')" by code_simp
  have d: "lower ''nurses run'' \<noteq> rev (lower ''nurses run'')" by code_simp
  show ?thesis using a b c d by (simp only: gen) simp
qed

subsection \<open>Character frequencies\<close>

text \<open>
  C8. For every string \<open>s\<close>, the character frequency map computed by \<open>analyze_string\<close>
  has one entry for each distinct character of \<open>s\<close> and no other entry (characters
  compared as they are, so case matters), each entry holds the number of occurrences
  of its character, and the counts add up to the computed length.
\<close>

theorem analyze_string_character_frequency:
  "distinct (dict_keys (character_frequency_map (analyze_string sha256 s)))
   \<and> set (dict_keys (character_frequency_map (analyze_string sha256 s))) = set s
   \<and> dict_get (character_frequency_map (analyze_string sha256 s)) c 0 = int (count_list s c)
   \<and> sum_list (dict_values (character_frequency_map (analyze_string sha256 s)))
       = length_p (analyze_string sha256 s)"
proof -
  have cf: "character_frequency_map (analyze_string sha256 s) = count_elements [] s"
    by (simp add: analyze_string_def Let_def Counter_def)
  have len: "length_p (analyze_string sha256 s) = int (length s)"
    by (simp add: analyze_string_def Let_def)
  have "distinct (dict_keys (count_elements [] s))"
    by (rule count_elements_keys_distinct) (simp add: dict_keys_Nil)
  moreover have "set (dict_keys (count_elements [] s)) = set s"
    by (simp add: count_elements_keys_set dict_keys_Nil)
  moreover have "dict_get (count_elements [] s) c 0 = int (count_list s c)"
    using count_elements_lookup [of "[]" s c] by (simp add: dict_get_def)
  moreover have "sum_list (dict_values (count_elements [] s)) = int (length s)"
    by (simp add: count_elements_sum dict_values_Nil)
  ultimately show ?thesis by (simp only: cf len)
qed

subsection \<open>Substrings\<close>

lemma startswith_prefix: "startswith w s = prefix w s"
  by (induction w s rule: startswith.induct) auto

lemma str_in_sublist: "str_in w s = sublist w s"
  by (induction s) (auto simp: startswith_prefix sublist_Cons_right)

lemma str_in_Nil: "str_in [] s"
  by (simp add: str_in_sublist)

subsection \<open>The filter engine\<close>

lemma apply_filters_eq: "apply_filters records spec = filter (passes spec) records"
proof -
  have p: "(case is_palindrome_f spec of None \<Rightarrow> records
            | Some v \<Rightarrow> filter (\<lambda>s. is_palindrome (properties s) = v) records)
           = filter (\<lambda>r. case is_palindrome_f spec of None \<Rightarrow> True
                          | Some v \<Rightarrow> is_palindrome (properties r) = v) records"
    by (simp split: option.split)
  have lo: "(case min_length_f spec of None \<Rightarrow> xs
            | Some n \<Rightarrow> filter (\<lambda>s. length_p (properties s) \<ge> n) xs)
           = filter (\<lambda>r. case min_length_f spec of None \<Rightarrow> True
                          | Some n \<Rightarrow> length_p (properties r) \<ge> n) xs" for xs
    by (simp split: option.split)
  have hi: "(case max_length_f spec of None \<Rightarrow> xs
            | Some n \<Rightarrow> filter (\<lambda>s. length_p (properties s) \<le> n) xs)
           = filter (\<lambda>r. case max_length_f spec of None \<Rightarrow> True
                          | Some n \<Rightarrow> length_p (properties r) \<le> n) xs" for xs
    by (simp split: option.split)
  have wc: "(case word_count_f spec of None \<Rightarrow> xs
            | Some n \<Rightarrow> filter (\<lambda>s. word_count (properties s) = n) xs)
           = filter (\<lambda>r. case word_count_f spec of None \<Rightarrow> True
                          | Some n \<Rightarrow> word_count (properties r) = n) xs" for xs
    by (simp split: option.split)
  have ch: "(case contains_character_f spec of None \<Rightarrow> xs
            | Some ch \<Rightarrow> if ch = [] then xs else filter (\<lambda>s. str_in ch (value_s s)) xs)
           = filter (\<lambda>r. case contains_character_f spec of None \<Rightarrow> True
                          | Some ch \<Rightarrow> str_in ch (value_s r)) xs" for xs
    by (simp add: str_in_Nil split: option.split)
  show ?thesis
    unfolding apply_filters_def Let_def p lo hi wc ch passes_def
    by (simp add: conj_ac)
qed

text \<open>
  C6. For every sequence of records and every filter specification, \<open>apply_filters\<close>
  returns exactly the records that pass every predicate present in the specification
  (palindrome flag equal, length at least \<open>min_length\<close>, length at most \<open>max_length\<close>,
  word count equal, \<open>contains_character\<close> occurring in the raw value), in the order of
  the input: the result is the input filtered by the conjunction, hence a subsequence
  of it. A predicate that is absent constrains nothing.
\<close>

theorem apply_filters_passes:
  "apply_filters records spec = filter (passes spec) records
   \<and> subseq (apply_filters records spec) records
   \<and> set (apply_filters records spec) = {r \<in> set records. passes spec r}"
  by (simp add: apply_filters_eq)

theorem apply_filters_passes_witness:
  "apply_filters [rec_of ''ab'', rec_of ''level'', rec_of ''two words'', rec_of ''Hello'']
       (empty_filters\<lparr>min_length_f := Some 3, word_count_f := Some 1\<rparr>)
     = [rec_of ''level'', rec_of ''Hello'']"
proof -
  have a: "\<not> passes (empty_filters\<lparr>min_length_f := Some 3, word_count_f := Some 1\<rparr>) (rec_of ''ab'')"
    by code_simp
  have b: "passes (empty_filters\<lparr>min_length_f := Some 3, word_count_f := Some 1\<rparr>) (rec_of ''level'')"
    by code_simp
  have c: "\<not> passes (empty_filters\<lparr>min_length_f := Some 3, word_count_f := Some 1\<rparr>) (rec_of ''two words'')"
    by code_simp
  have d: "passes (empty_filters\<lparr>min_length_f := Some 3, word_count_f := Some 1\<rparr>) (rec_of ''Hello'')"
    by code_simp
  show ?thesis
    using apply_filters_passes [of "[rec_of ''ab'', rec_of ''level'', rec_of ''two words'', rec_of ''Hello'']"
        "empty_filters\<lparr>min_length_f := Some 3, word_count_f := Some 1\<rparr>"] a b c d
    by simp
qed

subsection \<open>Creating a record\<close>

lemma dict_set_new: "\<not> dict_contains k d \<Longrightarrow> dict_set k v d = d @ [(k, v)]"
  by (induction d) (auto simp: dict_contains_def dict_keys_def)

lemma dict_contains_set: "dict_contains k (dict_set k v d)"
  by (simp add: dict_contains_def dict_keys_set)

text \<open>
  C9. For every store and string \<open>v\<close>: when the digest of \<open>v\<close> is already a key of the
  store, \<open>create_string\<close> fails with \<open>DuplicateError\<close> (status 409) and leaves the store
  as it was; otherwise it returns the new record and the store gains exactly that
  record, under the digest, after the entries it had. Creating the same string a
  second time fails with \<open>DuplicateError\<close> and changes nothing, whatever the first
  attempt did.
\<close>

theorem create_string_duplicate:
  "(dict_contains (sha256 v) string_store \<longrightarrow>
      create_string sha256 utcnow string_store v = (Inl DuplicateError, string_store))
   \<and> (\<not> dict_contains (sha256 v) string_store \<longrightarrow>
      create_string sha256 utcnow string_store v =
        (Inr \<lparr>id_s = sha256 v, value_s = v, properties = analyze_string sha256 v,
               created_at = utcnow @ ''Z''\<rparr>,
         string_store @ [(sha256 v, \<lparr>id_s = sha256 v, value_s = v,
               properties = analyze_string sha256 v, created_at = utcnow @ ''Z''\<rparr>)]))
   \<and> create_string sha256 utcnow' (snd (create_string sha256 utcnow string_store v)) v =
        (Inl DuplicateError, snd (create_string sha256 utcnow string_store v))"
proof -
  have h: "sha256_hash (analyze_string sha256 v) = sha256 v"
    by (simp add: analyze_string_def Let_def)
  have dup: "create_string sha256 t st v = (Inl DuplicateError, st)"
    if "dict_contains (sha256 v) st" for t st
    using that by (simp add: create_string_def Let_def h DuplicateError_def)
  have new: "create_string sha256 t st v =
        (Inr \<lparr>id_s = sha256 v, value_s = v, properties = analyze_string sha256 v,
               created_at = t @ ''Z''\<rparr>,
         dict_set (sha256 v) \<lparr>id_s = sha256 v, value_s = v,
               properties = analyze_string sha256 v, created_at = t @ ''Z''\<rparr> st)"
    if "\<not> dict_contains (sha256 v) st" for t st
    using that by (simp add: create_string_def Let_def h)
  have after: "dict_contains (sha256 v) (snd (create_string sha256 utcnow string_store v))"
  proof (cases "dict_contains (sha256 v) string_store")
    case True
    then show ?thesis by (simp add: dup)
  next
    case False
    then show ?thesis by (simp add: new dict_contains_set)
  qed
  show ?thesis
    using dup [of string_store utcnow] new [of string_store utcnow] dup [OF after, of utcnow']
    by (simp add: dict_set_new)
qed

theorem create_string_duplicate_witness:
  "create_string (\<lambda>s. ''#'' @ s) ''t0'' [] ''hello'' =
     (Inr \<lparr>id_s = ''#hello'', value_s = ''hello'',
            properties = analyze_string (\<lambda>s. ''#'' @ s) ''hello'', created_at = ''t0Z''\<rparr>,
      [(''#hello'', \<lparr>id_s = ''#hello'', value_s = ''hello'',
            properties = analyze_string (\<lambda>s. ''#'' @ s) ''hello'', created_at = ''t0Z''\<rparr>)])
   \<and> create_string (\<lambda>s. ''#'' @ s) ''t1''
        (snd (create_string (\<lambda>s. ''#'' @ s) ''t0'' [] ''hello'')) ''hello'' =
     (Inl DuplicateError, snd (create_string (\<lambda>s. ''#'' @ s) ''t0'' [] ''hello''))"
proof -
  have absent: "\<not> dict_contains (''#'' @ ''hello'') ([] :: store)"
    by (simp add: dict_contains_def dict_keys_def)
  note t = create_string_duplicate [of "\<lambda>s. ''#'' @ s" "''hello''" "[]" "''t0''" "''t1''"]
  have first: "create_string (\<lambda>s. ''#'' @ s) ''t0'' [] ''hello'' =
     (Inr \<lparr>id_s = ''#hello'', value_s = ''hello'',
            properties = analyze_string (\<lambda>s. ''#'' @ s) ''hello'', created_at = ''t0Z''\<rparr>,
      [(''#hello'', \<lparr>id_s = ''#hello'', value_s = ''hello'',
            properties = analyze_string (\<lambda>s. ''#'' @ s) ''hello'', created_at = ''t0Z''\<rparr>)])"
    using t absent by simp
  have second: "create_string (\<lambda>s. ''#'' @ s) ''t1''
        (snd (create_string (\<lambda>s. ''#'' @ s) ''t0'' [] ''hello'')) ''hello'' =
     (Inl DuplicateError, snd (create_string (\<lambda>s. ''#'' @ s) ''t0'' [] ''hello''))"
    using t by blast
  show ?thesis using first second by blast
qed

subsection \<open>The structured list operation\<close>

text \<open>
  C1, as stated, asks for a failure of the unprocessable class (status 422) when both
  bounds are supplied and \<open>min_length > max_length\<close>. With \<open>min_length = 10\<close> and
  \<open>max_length = 5\<close> the handler raises status 400.
\<close>

theorem list_strings_with_filters_conflict_counterexample:
  "list_strings_with_filters [] None (Some 10) (Some 5) None None
     = Inl (HTTPException 400 ''min_length cannot be greater than max_length'')
   \<and> status_code (HTTPException 400 ''min_length cannot be greater than max_length'') \<noteq> 422"
  by (simp add: list_strings_with_filters_def)

text \<open>
  C1, amended. For every call of \<open>list_strings_with_filters\<close> in which both bounds are
  supplied and \<open>min_length > max_length\<close>, the handler raises the client error
  \<open>HTTPException 400 "min_length cannot be greater than max_length"\<close> (bad-request
  class), whatever the store and the other parameters are: no record is filtered or
  returned.
\<close>

theorem list_strings_with_filters_conflict:
  "hi < lo \<Longrightarrow>
   list_strings_with_filters string_store p (Some lo) (Some hi) w c
     = Inl (HTTPException 400 ''min_length cannot be greater than max_length'')"
  by (simp add: list_strings_with_filters_def)

theorem list_strings_with_filters_conflict_witness:
  "(5::int) < 10 \<and>
   list_strings_with_filters [(''k'', rec_of ''sample'')] (Some True) (Some 10) (Some 5) None (Some ''a'')
     = Inl (HTTPException 400 ''min_length cannot be greater than max_length'')"
  using list_strings_with_filters_conflict [of 5 10 "[(''k'', rec_of ''sample'')]" "Some True" None "Some ''a''"]
  by simp

subsection \<open>The matcher\<close>

lemma match_lit: "match (lit w) (s, g) = (if startswith w s then [(drop (length w) s, g)] else [])"
proof (induction w arbitrary: s)
  case Nil
  then show ?case by simp
next
  case (Cons c w)
  then show ?case by (cases s) auto
qed

lemma match_plus_cls:
  "match (Plus (Cls p)) (s, g) = map (\<lambda>k. (drop k s, g)) (rev [1..<Suc (length (takeWhile p s))])"
proof (induction s)
  case Nil
  then show ?case by (simp add: match.simps(7))
next
  case (Cons c s)
  show ?case
  proof (cases "p c")
    case False
    then show ?thesis by (simp add: match.simps(7))
  next
    case True
    have "map (\<lambda>k. (drop k (c # s), g)) [1..<Suc (Suc (length (takeWhile p s)))]
          = (s, g) # map (\<lambda>k. (drop k s, g)) [1..<Suc (length (takeWhile p s))]"
      by (simp add: upt_conv_Cons map_Suc_upt [symmetric] del: upt_Suc)
    then show ?thesis using True Cons by (simp add: match.simps(7) rev_map [symmetric] del: upt_Suc)
  qed
qed

lemma match_grp_plus_cls:
  "match (Grp (Plus (Cls p))) (s, g)
     = map (\<lambda>k. (drop k s, Some (take k s))) (rev [1..<Suc (length (takeWhile p s))])"
proof -
  have k: "length s - (length s - k) = k" if "k \<in> set [1..<Suc (length (takeWhile p s))]" for k
    using that length_takeWhile_le [of p s] by auto
  have "map (\<lambda>(s', _). (s', Some (take (length s - length s') s)))
            (map (\<lambda>k. (drop k s, g)) (rev [1..<Suc (length (takeWhile p s))]))
        = map (\<lambda>k. (drop k s, Some (take k s))) (rev [1..<Suc (length (takeWhile p s))])"
    unfolding map_map comp_def prod.case
    by (rule map_cong [OF refl]) (simp add: k del: upt_Suc)
  then show ?thesis
    by (simp only: match.simps(8) match_plus_cls)
qed

lemma search_skip:
  "(\<And>i. i < length pre \<Longrightarrow> match r (drop i (pre @ t), None) = []) \<Longrightarrow> t \<noteq> [] \<Longrightarrow>
   search r (pre @ t) = search r t"
proof (induction pre)
  case Nil
  then show ?case by simp
next
  case (Cons a pre)
  have "match r ((a # pre) @ t, None) = []" using Cons.prems(1) [of 0] by simp
  moreover have "search r (pre @ t) = search r t"
  proof (rule Cons.IH)
    fix i assume "i < length pre"
    then show "match r (drop i (pre @ t), None) = []" using Cons.prems(1) [of "Suc i"] by simp
  qed (rule Cons.prems(2))
  ultimately show ?case by simp
qed

lemma search_hit: "match r (s, None) = (rest, g) # others \<Longrightarrow> search r s = Some g"
  by (cases s) simp_all




subsection \<open>The numeric patterns\<close>

text \<open>On a run of digits \<open>(\d+)\<close> first takes the whole run and then gives back one
  digit at a time; what follows each numeric pattern cannot start on a digit, so only
  the whole run leads to a match, and searching with a numeric pattern is the same
  as scanning for the first place where the phrase begins.\<close>

lemma match_Eps_fun: "match Eps = (\<lambda>st. [st])"
  by (rule ext) simp

lemma match_Seq_Eps: "match (Seq r Eps) = match r"
  by (rule ext) (simp add: match_Eps_fun)

lemma match_digits:
  "match (Grp (Plus (Cls p))) (t, g) =
     (if takeWhile p t = [] then []
      else (dropWhile p t, Some (takeWhile p t))
           # map (\<lambda>k. (drop k t, Some (take k t))) (rev [1..<length (takeWhile p t)]))"
proof (cases "takeWhile p t = []")
  case True
  then show ?thesis by (simp only: match_grp_plus_cls) simp
next
  case False
  define n where "n = length (takeWhile p t)"
  have n: "0 < n" using False by (simp add: n_def)
  have r: "rev [1..<Suc n] = n # rev [1..<n]" using n by simp
  have tk: "take n t = takeWhile p t" unfolding n_def by (rule takeWhile_eq_take [symmetric])
  have dr: "drop n t = dropWhile p t" unfolding n_def by (rule dropWhile_eq_drop [symmetric])
  have "match (Grp (Plus (Cls p))) (t, g) = map (\<lambda>k. (drop k t, Some (take k t))) (rev [1..<Suc n])"
    unfolding n_def by (rule match_grp_plus_cls)
  also have "\<dots> = (dropWhile p t, Some (takeWhile p t))
                     # map (\<lambda>k. (drop k t, Some (take k t))) (rev [1..<n])"
    by (simp only: r list.map tk dr)
  finally show ?thesis using False by (simp add: n_def)
qed

lemma inside_run:
  assumes "k < length (takeWhile p t)"
  shows "\<exists>rest. drop k t = (t ! k) # rest \<and> p (t ! k)"
proof -
  have kt: "k < length t" using assms length_takeWhile_le [of p t] by simp
  have "takeWhile p t ! k \<in> set (takeWhile p t)" using assms by simp
  then have "p (takeWhile p t ! k)" by (rule set_takeWhileD [THEN conjunct2])
  then have "p (t ! k)" using takeWhile_nth [OF assms] by simp
  then show ?thesis using Cons_nth_drop_Suc [OF kt, symmetric] by blast
qed

lemma match_opt_lit_hd:
  "\<exists>rest others. match (Seq (Opt (Lit c)) Eps) (u, g) = (rest, g) # others"
  by (cases u) (auto simp: match_Seq_Eps)

lemma match_number_open:
  "match (seq [lit kw, Grp (Plus (Cls is_digit))]) (s, g) =
     (if startswith kw s then match (Grp (Plus (Cls is_digit))) (drop (length kw) s, g) else [])"
proof -
  have "match (seq [lit kw, Grp (Plus (Cls is_digit))]) (s, g)
        = concat (map (match (Seq (Grp (Plus (Cls is_digit))) Eps)) (match (lit kw) (s, g)))"
    by (simp only: seq.simps match.simps(4))
  then show ?thesis by (simp only: match_lit match_Seq_Eps) (simp del: match.simps)
qed

lemma number_open_None:
  "num_at kw [] s = None \<Longrightarrow> match (seq [lit kw, Grp (Plus (Cls is_digit))]) (s, g) = []"
  by (simp only: match_number_open match_digits) (auto simp add: num_at_def Let_def split: if_splits)

lemma number_open_Some:
  "num_at kw [] s = Some ds \<Longrightarrow>
   \<exists>rest others. match (seq [lit kw, Grp (Plus (Cls is_digit))]) (s, g) = (rest, Some ds) # others"
  by (simp only: match_number_open match_digits) (auto simp add: num_at_def Let_def split: if_splits)

lemma match_tail:
  "match (seq [lit after, Opt (Lit c)]) (u, g) =
     (if startswith after u then match (Seq (Opt (Lit c)) Eps) (drop (length after) u, g) else [])"
proof -
  have "match (seq [lit after, Opt (Lit c)]) (u, g)
        = concat (map (match (Seq (Opt (Lit c)) Eps)) (match (lit after) (u, g)))"
    by (simp only: seq.simps match.simps(4))
  then show ?thesis by (simp only: match_lit) (simp del: match.simps)
qed

lemma match_number_closed:
  "match (seq [lit kw, Grp (Plus (Cls is_digit)), lit after, Opt (Lit c)]) (s, g) =
     (if startswith kw s
      then concat (map (match (seq [lit after, Opt (Lit c)]))
                       (match (Grp (Plus (Cls is_digit))) (drop (length kw) s, g)))
      else [])"
proof -
  have "match (seq [lit kw, Grp (Plus (Cls is_digit)), lit after, Opt (Lit c)]) (s, g)
        = concat (map (match (Seq (Grp (Plus (Cls is_digit))) (seq [lit after, Opt (Lit c)])))
                      (match (lit kw) (s, g)))"
    by (simp only: seq.simps match.simps(4))
  then show ?thesis by (simp only: match_lit) (simp del: seq.simps)
qed

lemma shorter_runs_fail:
  assumes after: "after \<noteq> []" "\<not> is_digit (hd after)"
  shows "concat (map (match (seq [lit after, Opt (Lit c)]))
           (map (\<lambda>k. (drop k t, Some (take k t))) (rev [1..<length (takeWhile is_digit t)]))) = []"
proof -
  have "match (seq [lit after, Opt (Lit c)]) (drop k t, Some (take k t)) = []"
    if "k \<in> set (rev [1..<length (takeWhile is_digit t)])" for k
  proof -
    from that have "k < length (takeWhile is_digit t)" by simp
    then obtain rest where d: "drop k t = (t ! k) # rest" and p: "is_digit (t ! k)"
      using inside_run by blast
    have "\<not> startswith after (drop k t)" using after d p by (cases after) auto
    then show ?thesis by (simp only: match_tail) simp
  qed
  then show ?thesis by (simp del: seq.simps upt_Suc)
qed

lemma number_closed_None:
  assumes after: "after \<noteq> []" "\<not> is_digit (hd after)" and n: "num_at kw after s = None"
  shows "match (seq [lit kw, Grp (Plus (Cls is_digit)), lit after, Opt (Lit c)]) (s, g) = []"
proof (cases "startswith kw s \<and> takeWhile is_digit (drop (length kw) s) \<noteq> []")
  case False
  then show ?thesis by (simp only: match_number_closed match_digits) auto
next
  case True
  then have nt: "\<not> startswith after (dropWhile is_digit (drop (length kw) s))"
    using n by (simp add: num_at_def Let_def split: if_splits)
  have "match (seq [lit after, Opt (Lit c)])
          (dropWhile is_digit (drop (length kw) s), Some (takeWhile is_digit (drop (length kw) s))) = []"
    using nt by (simp only: match_tail) simp
  then show ?thesis
    using True shorter_runs_fail [OF after, of c "drop (length kw) s"]
    by (simp only: match_number_closed match_digits) (simp del: seq.simps upt_Suc)
qed

lemma number_closed_Some:
  assumes after: "after \<noteq> []" "\<not> is_digit (hd after)" and n: "num_at kw after s = Some ds"
  shows "\<exists>rest others.
           match (seq [lit kw, Grp (Plus (Cls is_digit)), lit after, Opt (Lit c)]) (s, g)
             = (rest, Some ds) # others"
proof -
  from n have kw: "startswith kw s" and ds: "ds = takeWhile is_digit (drop (length kw) s)" "ds \<noteq> []"
    and st: "startswith after (dropWhile is_digit (drop (length kw) s))"
    by (auto simp add: num_at_def Let_def split: if_splits)
  obtain rest others where
    "match (Seq (Opt (Lit c)) Eps)
       (drop (length after) (dropWhile is_digit (drop (length kw) s)), Some ds) = (rest, Some ds) # others"
    using match_opt_lit_hd by blast
  then have "match (seq [lit after, Opt (Lit c)]) (dropWhile is_digit (drop (length kw) s), Some ds)
               = (rest, Some ds) # others"
    using st by (simp only: match_tail) simp
  then show ?thesis
    using kw ds shorter_runs_fail [OF after, of c "drop (length kw) s"]
    by (simp only: match_number_closed match_digits) (simp del: seq.simps upt_Suc)
qed

lemma search_first_number:
  assumes none: "\<And>s g. num_at kw after s = None \<Longrightarrow> match R (s, g) = []"
    and some: "\<And>s g ds. num_at kw after s = Some ds \<Longrightarrow> \<exists>rest others. match R (s, g) = (rest, Some ds) # others"
  shows "search R s = map_option Some (first_number kw after s)"
proof (induction s)
  case Nil
  have "num_at kw after [] = None" by (simp add: num_at_def)
  then show ?case using none by simp
next
  case (Cons c s)
  show ?case
  proof (cases "num_at kw after (c # s)")
    case None
    then show ?thesis using none [OF None] Cons by simp
  next
    case (Some ds)
    then obtain rest others where "match R (c # s, None) = (rest, Some ds) # others"
      using some by blast
    then show ?thesis using Some by simp
  qed
qed

lemma not_digit_space: "\<not> is_digit CHR '' ''"
  by code_simp

lemma search_longer: "search longer_re s = map_option Some (first_number ''longer than '' [] s)"
  unfolding longer_re_def by (rule search_first_number [OF number_open_None number_open_Some])

lemma search_shorter: "search shorter_re s = map_option Some (first_number ''shorter than '' [] s)"
  unfolding shorter_re_def by (rule search_first_number [OF number_open_None number_open_Some])

lemma search_at_least:
  "search at_least_re s = map_option Some (first_number ''at least '' '' character'' s)"
  unfolding at_least_re_def
  by (rule search_first_number [OF number_closed_None number_closed_Some])
     (simp_all add: not_digit_space)

lemma search_at_most:
  "search at_most_re s = map_option Some (first_number ''at most '' '' character'' s)"
  unfolding at_most_re_def
  by (rule search_first_number [OF number_closed_None number_closed_Some])
     (simp_all add: not_digit_space)

lemma search_exactly:
  "search exactly_re s = map_option Some (first_number ''exactly '' '' character'' s)"
  unfolding exactly_re_def
  by (rule search_first_number [OF number_closed_None number_closed_Some])
     (simp_all add: not_digit_space)

lemma num_at_occurs:
  assumes "num_at kw after s = Some ds"
  shows "\<exists>post. s = kw @ ds @ after @ post \<and> ds \<noteq> [] \<and> list_all is_digit ds"
proof -
  from assms have kw: "startswith kw s" and ds: "ds = takeWhile is_digit (drop (length kw) s)" "ds \<noteq> []"
    and st: "startswith after (dropWhile is_digit (drop (length kw) s))"
    by (auto simp add: num_at_def Let_def split: if_splits)
  from kw obtain t where t: "s = kw @ t" by (auto simp: startswith_prefix prefix_def)
  from st obtain post where post: "dropWhile is_digit (drop (length kw) s) = after @ post"
    by (auto simp: startswith_prefix prefix_def)
  have dt: "drop (length kw) s = t" using t by simp
  have "t = ds @ after @ post"
    using takeWhile_dropWhile_id [of is_digit t] ds(1) post unfolding dt by metis
  then have "s = kw @ ds @ after @ post" using t by simp
  moreover have "list_all is_digit ds" unfolding ds list_all_iff by (auto dest: set_takeWhileD)
  ultimately show ?thesis using ds(2) by blast
qed

lemma first_number_occurs:
  "first_number kw after s = Some ds \<Longrightarrow>
   \<exists>pre post. s = pre @ kw @ ds @ after @ post \<and> ds \<noteq> [] \<and> list_all is_digit ds"
proof (induction s)
  case Nil
  then show ?case by simp
next
  case (Cons c s)
  show ?case
  proof (cases "num_at kw after (c # s)")
    case None
    then have "first_number kw after s = Some ds" using Cons.prems by simp
    then obtain pre post where "s = pre @ kw @ ds @ after @ post" "ds \<noteq> []" "list_all is_digit ds"
      using Cons.IH by blast
    then have "c # s = (c # pre) @ kw @ ds @ after @ post \<and> ds \<noteq> [] \<and> list_all is_digit ds" by simp
    then show ?thesis by blast
  next
    case (Some ds')
    then have "ds' = ds" using Cons.prems by simp
    then obtain post where "c # s = [] @ kw @ ds @ after @ post \<and> ds \<noteq> [] \<and> list_all is_digit ds"
      using num_at_occurs [OF Some] by auto
    then show ?thesis by blast
  qed
qed

text \<open>\<open>num_at\<close> is the phrase of the specification: the keyword, a whole number, the text
  that has to follow.\<close>

lemma num_at_iff:
  "num_at kw after s = Some ds \<longleftrightarrow>
     (\<exists>post. s = kw @ ds @ after @ post \<and> ds \<noteq> [] \<and> list_all is_digit ds
             \<and> (after @ post = [] \<or> \<not> is_digit (hd (after @ post))))"
proof
  assume h: "num_at kw after s = Some ds"
  then have kw: "startswith kw s" and ds: "ds = takeWhile is_digit (drop (length kw) s)" "ds \<noteq> []"
    and st: "startswith after (dropWhile is_digit (drop (length kw) s))"
    by (auto simp add: num_at_def Let_def split: if_splits)
  from kw obtain t where t: "s = kw @ t" by (auto simp: startswith_prefix prefix_def)
  from st obtain post where post: "dropWhile is_digit t = after @ post"
    using t by (auto simp: startswith_prefix prefix_def)
  have "t = ds @ after @ post"
    using takeWhile_dropWhile_id [of is_digit t] ds(1) post t by simp
  moreover have "list_all is_digit ds" using ds(1) by (auto simp: list_all_iff dest: set_takeWhileD)
  moreover have "after @ post = [] \<or> \<not> is_digit (hd (after @ post))"
    using post hd_dropWhile [of is_digit t] by (cases "after @ post") auto
  ultimately show "\<exists>post. s = kw @ ds @ after @ post \<and> ds \<noteq> [] \<and> list_all is_digit ds
             \<and> (after @ post = [] \<or> \<not> is_digit (hd (after @ post)))"
    using t ds(2) by blast
next
  assume "\<exists>post. s = kw @ ds @ after @ post \<and> ds \<noteq> [] \<and> list_all is_digit ds
             \<and> (after @ post = [] \<or> \<not> is_digit (hd (after @ post)))"
  then obtain post where s: "s = kw @ ds @ after @ post" and ne: "ds \<noteq> []"
    and dg: "list_all is_digit ds" and e: "after @ post = [] \<or> \<not> is_digit (hd (after @ post))"
    by blast
  have r: "takeWhile is_digit (after @ post) = []"
    using e by (cases "after @ post") auto
  have tw: "takeWhile is_digit (ds @ after @ post) = ds"
    using dg r by (simp add: list_all_iff takeWhile_append2)
  have dw: "dropWhile is_digit (ds @ after @ post) = after @ post"
    using takeWhile_dropWhile_id [of is_digit "ds @ after @ post"] unfolding tw by simp
  show "num_at kw after s = Some ds"
    using ne by (simp add: num_at_def Let_def s tw dw startswith_prefix)
qed

subsection \<open>The message of the digit limit\<close>

lemma str_nat_digits: "list_all is_digit (str_nat n) \<and> str_nat n \<noteq> []"
proof (induction n rule: str_nat.induct)
  case (1 n)
  have d: "is_digit (char_of (48 + k))" if "k < 10" for k :: nat
    using that by (simp add: is_digit_def)
  show ?case
  proof (cases "n < 10")
    case True
    then show ?thesis by (simp add: str_nat.simps [of n] d)
  next
    case False
    then show ?thesis using 1 by (simp add: str_nat.simps [of n] d)
  qed
qed

lemma lower_char_digit: "is_digit c \<Longrightarrow> lower_char c = c"
  by (simp add: is_digit_def lower_char_def Let_def)

lemma lower_digits: "list_all is_digit ds \<Longrightarrow> lower ds = ds"
  by (induction ds) (simp_all add: lower_def lower_char_digit)

lemma digit_not_in_conflicting: "is_digit c \<Longrightarrow> c \<notin> set ''conflicting''"
  by (auto simp: is_digit_def)

lemma sublist_gap:
  assumes d: "d \<noteq> []" and disj: "set d \<inter> set w = {}" and sub: "sublist w (a @ d @ b)"
  shows "sublist w a \<or> sublist w b"
proof -
  from sub consider "sublist w a" | "sublist w (d @ b)"
    | w1 w2 where "w = w1 @ w2" "suffix w1 a" "prefix w2 (d @ b)"
    by (auto simp: sublist_append)
  then show ?thesis
  proof cases
    case 1
    then show ?thesis by simp
  next
    case 2
    then consider "sublist w d" | "sublist w b"
      | w1 w2 where "w = w1 @ w2" "suffix w1 d" "prefix w2 b"
      by (auto simp: sublist_append)
    then show ?thesis
    proof cases
      case 1
      then have "set w \<subseteq> set d" by (rule set_mono_sublist)
      then have "w = []" using disj by (cases w) auto
      then show ?thesis by simp
    next
      case 2
      then show ?thesis by simp
    next
      case (3 w1 w2)
      have "set w1 \<subseteq> set d" using 3(2) by (rule set_mono_suffix)
      then have "w1 = []" using disj 3(1) by (cases w1) auto
      then have "prefix w b" using 3 by simp
      then show ?thesis by (auto simp: prefix_imp_sublist)
    qed
  next
    case (3 w1 w2)
    show ?thesis
    proof (cases w2)
      case Nil
      then have "suffix w a" using 3 by simp
      then show ?thesis by (auto simp: suffix_imp_sublist)
    next
      case (Cons x xs)
      then have "prefix [x] (d @ b)" using 3(3) by (auto simp: prefix_def)
      then have "x = hd d" using d by (cases d) auto
      then have "x \<in> set d" using d by simp
      moreover have "x \<in> set w" using 3(1) Cons by simp
      ultimately show ?thesis using disj by auto
    qed
  qed
qed

lemma limit_message_not_conflicting: "\<not> str_in ''conflicting'' (lower (int_limit_message n))"
proof
  assume h: "str_in ''conflicting'' (lower (int_limit_message n))"
  have dg: "list_all is_digit (str_nat n)" and ne: "str_nat n \<noteq> []"
    using str_nat_digits by simp_all
  have l: "lower (int_limit_message n) =
      lower ''Exceeds the limit (4300 digits) for integer string conversion: value has ''
      @ str_nat n
      @ lower '' digits; use sys.set_int_max_str_digits() to increase the limit''"
    unfolding int_limit_message_def using lower_digits [OF dg] by (simp add: lower_def)
  have disj: "set (str_nat n) \<inter> set ''conflicting'' = {}"
    using dg digit_not_in_conflicting unfolding list_all_iff by blast
  have a: "\<not> str_in ''conflicting''
      (lower ''Exceeds the limit (4300 digits) for integer string conversion: value has '')"
    by code_simp
  have b: "\<not> str_in ''conflicting''
      (lower '' digits; use sys.set_int_max_str_digits() to increase the limit'')"
    by code_simp
  from h have "sublist ''conflicting''
      (lower ''Exceeds the limit (4300 digits) for integer string conversion: value has ''
      @ str_nat n
      @ lower '' digits; use sys.set_int_max_str_digits() to increase the limit'')"
    unfolding l str_in_sublist .
  from sublist_gap [OF ne disj this] show False
    using a b unfolding str_in_sublist by blast
qed


subsection \<open>One rule after the other\<close>

lemma and_then_Inr: "and_then r rule = Inr f' \<longleftrightarrow> (\<exists>f. r = Inr f \<and> rule f = Inr f')"
  by (cases r) (simp_all add: and_then_def)

lemma and_then_Inl: "and_then r rule = Inl e \<longleftrightarrow> r = Inl e \<or> (\<exists>f. r = Inr f \<and> rule f = Inl e)"
  by (cases r) (simp_all add: and_then_def)

lemma search_number_case:
  "(case map_option Some x of None \<Rightarrow> d | Some None \<Rightarrow> d | Some (Some g) \<Rightarrow> f g)
     = (case x of None \<Rightarrow> d | Some g \<Rightarrow> f g)"
  by (cases x) simp_all

text \<open>Each numeric rule, read through the phrase it looks for.\<close>

lemma longer_rule_number:
  "longer_rule q f =
     (case first_number ''longer than '' [] q of None \<Rightarrow> Inr f
      | Some ds \<Rightarrow> if int_max_str_digits < length ds
                  then Inl (ValueError (int_limit_message (length ds)))
                  else Inr (f\<lparr>min_length_f := Some (int_value ds + 1)\<rparr>))"
  by (simp add: longer_rule_def search_longer search_number_case py_int_def split: option.split)

lemma shorter_rule_number:
  "shorter_rule q f =
     (case first_number ''shorter than '' [] q of None \<Rightarrow> Inr f
      | Some ds \<Rightarrow> if int_max_str_digits < length ds
                  then Inl (ValueError (int_limit_message (length ds)))
                  else Inr (f\<lparr>max_length_f := Some (int_value ds - 1)\<rparr>))"
  by (simp add: shorter_rule_def search_shorter search_number_case py_int_def split: option.split)

lemma at_least_rule_number:
  "at_least_rule q f =
     (case first_number ''at least '' '' character'' q of None \<Rightarrow> Inr f
      | Some ds \<Rightarrow> if int_max_str_digits < length ds
                  then Inl (ValueError (int_limit_message (length ds)))
                  else Inr (f\<lparr>min_length_f := Some (int_value ds)\<rparr>))"
  by (simp add: at_least_rule_def search_at_least search_number_case py_int_def split: option.split)

lemma at_most_rule_number:
  "at_most_rule q f =
     (case first_number ''at most '' '' character'' q of None \<Rightarrow> Inr f
      | Some ds \<Rightarrow> if int_max_str_digits < length ds
                  then Inl (ValueError (int_limit_message (length ds)))
                  else Inr (f\<lparr>max_length_f := Some (int_value ds)\<rparr>))"
  by (simp add: at_most_rule_def search_at_most search_number_case py_int_def split: option.split)

lemma exactly_rule_number:
  "exactly_rule q f =
     (case first_number ''exactly '' '' character'' q of None \<Rightarrow> Inr f
      | Some ds \<Rightarrow> if int_max_str_digits < length ds
                  then Inl (ValueError (int_limit_message (length ds)))
                  else Inr (f\<lparr>min_length_f := Some (int_value ds),
                             max_length_f := Some (int_value ds)\<rparr>))"
  by (simp add: exactly_rule_def search_exactly search_number_case py_int_def split: option.split)

lemmas numeric_rules = longer_rule_number shorter_rule_number at_least_rule_number
  at_most_rule_number exactly_rule_number

subsection \<open>What the rules write\<close>

lemma palindrome_rule_sel:
  assumes "palindrome_rule q f = Inr f'"
  shows "is_palindrome_f f' = (if str_in ''palindrom'' q then Some True else is_palindrome_f f)"
    and "word_count_f f' = word_count_f f" and "min_length_f f' = min_length_f f"
    and "max_length_f f' = max_length_f f" and "contains_character_f f' = contains_character_f f"
  using assms by (auto simp: palindrome_rule_def)

lemma word_count_rule_sel:
  assumes "word_count_rule q f = Inr f'"
  shows "is_palindrome_f f' = is_palindrome_f f"
    and "word_count_f f' =
      (if str_in ''single word'' q \<or> str_in ''one word'' q then Some 1
       else if str_in ''two word'' q then Some 2
       else if str_in ''three word'' q then Some 3 else word_count_f f)"
    and "min_length_f f' = min_length_f f"
    and "max_length_f f' = max_length_f f" and "contains_character_f f' = contains_character_f f"
  using assms by (auto simp: word_count_rule_def)

lemma longer_rule_sel:
  assumes "longer_rule q f = Inr f'"
  shows "is_palindrome_f f' = is_palindrome_f f" and "word_count_f f' = word_count_f f"
    and "min_length_f f' =
      (case first_number ''longer than '' [] q of None \<Rightarrow> min_length_f f
       | Some ds \<Rightarrow> Some (int_value ds + 1))"
    and "max_length_f f' = max_length_f f" and "contains_character_f f' = contains_character_f f"
    and "within_limit (first_number ''longer than '' [] q)"
  using assms
  by (auto simp: longer_rule_number within_limit_def split: option.splits if_splits)

lemma shorter_rule_sel:
  assumes "shorter_rule q f = Inr f'"
  shows "is_palindrome_f f' = is_palindrome_f f" and "word_count_f f' = word_count_f f"
    and "min_length_f f' = min_length_f f"
    and "max_length_f f' =
      (case first_number ''shorter than '' [] q of None \<Rightarrow> max_length_f f
       | Some ds \<Rightarrow> Some (int_value ds - 1))"
    and "contains_character_f f' = contains_character_f f"
    and "within_limit (first_number ''shorter than '' [] q)"
  using assms
  by (auto simp: shorter_rule_number within_limit_def split: option.splits if_splits)

lemma at_least_rule_sel:
  assumes "at_least_rule q f = Inr f'"
  shows "is_palindrome_f f' = is_palindrome_f f" and "word_count_f f' = word_count_f f"
    and "min_length_f f' =
      (case first_number ''at least '' '' character'' q of None \<Rightarrow> min_length_f f
       | Some ds \<Rightarrow> Some (int_value ds))"
    and "max_length_f f' = max_length_f f" and "contains_character_f f' = contains_character_f f"
    and "within_limit (first_number ''at least '' '' character'' q)"
  using assms
  by (auto simp: at_least_rule_number within_limit_def split: option.splits if_splits)

lemma at_most_rule_sel:
  assumes "at_most_rule q f = Inr f'"
  shows "is_palindrome_f f' = is_palindrome_f f" and "word_count_f f' = word_count_f f"
    and "min_length_f f' = min_length_f f"
    and "max_length_f f' =
      (case first_number ''at most '' '' character'' q of None \<Rightarrow> max_length_f f
       | Some ds \<Rightarrow> Some (int_value ds))"
    and "contains_character_f f' = contains_character_f f"
    and "within_limit (first_number ''at most '' '' character'' q)"
  using assms
  by (auto simp: at_most_rule_number within_limit_def split: option.splits if_splits)

lemma exactly_rule_sel:
  assumes "exactly_rule q f = Inr f'"
  shows "is_palindrome_f f' = is_palindrome_f f" and "word_count_f f' = word_count_f f"
    and "min_length_f f' =
      (case first_number ''exactly '' '' character'' q of None \<Rightarrow> min_length_f f
       | Some ds \<Rightarrow> Some (int_value ds))"
    and "max_length_f f' =
      (case first_number ''exactly '' '' character'' q of None \<Rightarrow> max_length_f f
       | Some ds \<Rightarrow> Some (int_value ds))"
    and "contains_character_f f' = contains_character_f f"
    and "within_limit (first_number ''exactly '' '' character'' q)"
  using assms
  by (auto simp: exactly_rule_number within_limit_def split: option.splits if_splits)

lemma contains_rule_sel:
  assumes "contains_rule q f = Inr f'"
  shows "is_palindrome_f f' = is_palindrome_f f" and "word_count_f f' = word_count_f f"
    and "min_length_f f' = min_length_f f" and "max_length_f f' = max_length_f f"
    and "contains_character_f f' =
      (case search contains_re q of Some (Some g) \<Rightarrow> Some g | _ \<Rightarrow> contains_character_f f)"
  using assms by (auto simp: contains_rule_def split: option.splits)

lemma first_vowel_rule_sel:
  assumes "first_vowel_rule q f = Inr f'"
  shows "is_palindrome_f f' = is_palindrome_f f" and "word_count_f f' = word_count_f f"
    and "min_length_f f' = min_length_f f" and "max_length_f f' = max_length_f f"
    and "contains_character_f f' =
      (if str_in ''first vowel'' q then Some ''a'' else contains_character_f f)"
  using assms by (auto simp: first_vowel_rule_def)

text \<open>A rule that raises raises the error of the digit limit.\<close>

lemma rule_Inl:
  "palindrome_rule q f \<noteq> Inl e" "word_count_rule q f \<noteq> Inl e"
  "contains_rule q f \<noteq> Inl e" "first_vowel_rule q f \<noteq> Inl e"
  by (simp_all add: palindrome_rule_def word_count_rule_def contains_rule_def first_vowel_rule_def)

lemma numeric_rule_Inl:
  assumes "longer_rule q f = Inl e \<or> shorter_rule q f = Inl e \<or> at_least_rule q f = Inl e
           \<or> at_most_rule q f = Inl e \<or> exactly_rule q f = Inl e"
  shows "\<exists>n. int_max_str_digits < n \<and> e = ValueError (int_limit_message n)"
  using assms by (auto simp: numeric_rules split: option.splits if_splits)

text \<open>A rule returns when its number is within the limit.\<close>

lemma rule_returns:
  "\<exists>f'. palindrome_rule q f = Inr f'" "\<exists>f'. word_count_rule q f = Inr f'"
  "\<exists>f'. contains_rule q f = Inr f'" "\<exists>f'. first_vowel_rule q f = Inr f'"
  by (simp_all add: palindrome_rule_def word_count_rule_def contains_rule_def first_vowel_rule_def)

lemma numeric_rule_returns:
  "within_limit (first_number ''longer than '' [] q) \<Longrightarrow> \<exists>f'. longer_rule q f = Inr f'"
  "within_limit (first_number ''shorter than '' [] q) \<Longrightarrow> \<exists>f'. shorter_rule q f = Inr f'"
  "within_limit (first_number ''at least '' '' character'' q) \<Longrightarrow> \<exists>f'. at_least_rule q f = Inr f'"
  "within_limit (first_number ''at most '' '' character'' q) \<Longrightarrow> \<exists>f'. at_most_rule q f = Inr f'"
  "within_limit (first_number ''exactly '' '' character'' q) \<Longrightarrow> \<exists>f'. exactly_rule q f = Inr f'"
  by (auto simp: numeric_rules within_limit_def split: option.splits)

text \<open>The run of the nine rules.\<close>

lemma parse_rules_chain:
  "parse_rules q = Inr f \<longleftrightarrow>
     (\<exists>f1 f2 f3 f4 f5 f6 f7 f8.
        palindrome_rule (lower q) empty_filters = Inr f1
        \<and> word_count_rule (lower q) f1 = Inr f2
        \<and> longer_rule (lower q) f2 = Inr f3
        \<and> shorter_rule (lower q) f3 = Inr f4
        \<and> at_least_rule (lower q) f4 = Inr f5
        \<and> at_most_rule (lower q) f5 = Inr f6
        \<and> exactly_rule (lower q) f6 = Inr f7
        \<and> contains_rule (lower q) f7 = Inr f8
        \<and> first_vowel_rule (lower q) f8 = Inr f)"
  unfolding parse_rules_def Let_def fold_simps and_then_Inr by blast

lemma parse_rules_sel:
  assumes "parse_rules q = Inr f"
  shows "is_palindrome_f f = (if str_in ''palindrom'' (lower q) then Some True else None)"
    and "word_count_f f =
      (if str_in ''single word'' (lower q) \<or> str_in ''one word'' (lower q) then Some 1
       else if str_in ''two word'' (lower q) then Some 2
       else if str_in ''three word'' (lower q) then Some 3 else None)"
    and "min_length_f f =
      (case first_number ''exactly '' '' character'' (lower q) of
         Some ds \<Rightarrow> Some (int_value ds)
       | None \<Rightarrow> (case first_number ''at least '' '' character'' (lower q) of
                    Some ds \<Rightarrow> Some (int_value ds)
                  | None \<Rightarrow> (case first_number ''longer than '' [] (lower q) of
                               Some ds \<Rightarrow> Some (int_value ds + 1)
                             | None \<Rightarrow> None)))"
    and "max_length_f f =
      (case first_number ''exactly '' '' character'' (lower q) of
         Some ds \<Rightarrow> Some (int_value ds)
       | None \<Rightarrow> (case first_number ''at most '' '' character'' (lower q) of
                    Some ds \<Rightarrow> Some (int_value ds)
                  | None \<Rightarrow> (case first_number ''shorter than '' [] (lower q) of
                               Some ds \<Rightarrow> Some (int_value ds - 1)
                             | None \<Rightarrow> None)))"
    and "contains_character_f f =
      (if str_in ''first vowel'' (lower q) then Some ''a''
       else (case search contains_re (lower q) of Some (Some g) \<Rightarrow> Some g | _ \<Rightarrow> None))"
    and "numbers_ok (lower q)"
proof -
  from assms obtain f1 f2 f3 f4 f5 f6 f7 f8 where
    s1: "palindrome_rule (lower q) empty_filters = Inr f1"
    and s2: "word_count_rule (lower q) f1 = Inr f2"
    and s3: "longer_rule (lower q) f2 = Inr f3"
    and s4: "shorter_rule (lower q) f3 = Inr f4"
    and s5: "at_least_rule (lower q) f4 = Inr f5"
    and s6: "at_most_rule (lower q) f5 = Inr f6"
    and s7: "exactly_rule (lower q) f6 = Inr f7"
    and s8: "contains_rule (lower q) f7 = Inr f8"
    and s9: "first_vowel_rule (lower q) f8 = Inr f"
    unfolding parse_rules_chain by blast
  note p = palindrome_rule_sel [OF s1] and w = word_count_rule_sel [OF s2]
    and lo = longer_rule_sel [OF s3] and sh = shorter_rule_sel [OF s4]
    and al = at_least_rule_sel [OF s5] and am = at_most_rule_sel [OF s6]
    and ex = exactly_rule_sel [OF s7] and co = contains_rule_sel [OF s8]
    and fv = first_vowel_rule_sel [OF s9]
  show "is_palindrome_f f = (if str_in ''palindrom'' (lower q) then Some True else None)"
    by (simp only: fv(1) co(1) ex(1) am(1) al(1) sh(1) lo(1) w(1) p(1)) (simp add: empty_filters_def)
  show "word_count_f f =
      (if str_in ''single word'' (lower q) \<or> str_in ''one word'' (lower q) then Some 1
       else if str_in ''two word'' (lower q) then Some 2
       else if str_in ''three word'' (lower q) then Some 3 else None)"
    by (simp only: fv(2) co(2) ex(2) am(2) al(2) sh(2) lo(2) w(2) p(2)) (simp add: empty_filters_def)
  show "min_length_f f =
      (case first_number ''exactly '' '' character'' (lower q) of
         Some ds \<Rightarrow> Some (int_value ds)
       | None \<Rightarrow> (case first_number ''at least '' '' character'' (lower q) of
                    Some ds \<Rightarrow> Some (int_value ds)
                  | None \<Rightarrow> (case first_number ''longer than '' [] (lower q) of
                               Some ds \<Rightarrow> Some (int_value ds + 1)
                             | None \<Rightarrow> None)))"
    by (simp only: fv(3) co(3) ex(3) am(3) al(3) sh(3) lo(3) w(3) p(3))
       (simp add: empty_filters_def split: option.split)
  show "max_length_f f =
      (case first_number ''exactly '' '' character'' (lower q) of
         Some ds \<Rightarrow> Some (int_value ds)
       | None \<Rightarrow> (case first_number ''at most '' '' character'' (lower q) of
                    Some ds \<Rightarrow> Some (int_value ds)
                  | None \<Rightarrow> (case first_number ''shorter than '' [] (lower q) of
                               Some ds \<Rightarrow> Some (int_value ds - 1)
                             | None \<Rightarrow> None)))"
    by (simp only: fv(4) co(4) ex(4) am(4) al(4) sh(4) lo(4) w(4) p(4))
       (simp add: empty_filters_def split: option.split)
  show "contains_character_f f =
      (if str_in ''first vowel'' (lower q) then Some ''a''
       else (case search contains_re (lower q) of Some (Some g) \<Rightarrow> Some g | _ \<Rightarrow> None))"
    by (simp only: fv(5) co(5) ex(5) am(5) al(5) sh(5) lo(5) w(5) p(5))
       (simp add: empty_filters_def split: option.split)
  show "numbers_ok (lower q)"
    unfolding numbers_ok_def using lo(6) sh(6) al(6) am(6) ex(6) by simp
qed

lemma parse_rules_returns:
  assumes "numbers_ok (lower q)"
  shows "\<exists>f. parse_rules q = Inr f"
proof -
  from assms have n: "within_limit (first_number ''longer than '' [] (lower q))"
    "within_limit (first_number ''shorter than '' [] (lower q))"
    "within_limit (first_number ''at least '' '' character'' (lower q))"
    "within_limit (first_number ''at most '' '' character'' (lower q))"
    "within_limit (first_number ''exactly '' '' character'' (lower q))"
    by (simp_all add: numbers_ok_def)
  obtain f1 where s1: "palindrome_rule (lower q) empty_filters = Inr f1" using rule_returns(1) by blast
  obtain f2 where s2: "word_count_rule (lower q) f1 = Inr f2" using rule_returns(2) by blast
  obtain f3 where s3: "longer_rule (lower q) f2 = Inr f3" using numeric_rule_returns(1) [OF n(1)] by blast
  obtain f4 where s4: "shorter_rule (lower q) f3 = Inr f4" using numeric_rule_returns(2) [OF n(2)] by blast
  obtain f5 where s5: "at_least_rule (lower q) f4 = Inr f5" using numeric_rule_returns(3) [OF n(3)] by blast
  obtain f6 where s6: "at_most_rule (lower q) f5 = Inr f6" using numeric_rule_returns(4) [OF n(4)] by blast
  obtain f7 where s7: "exactly_rule (lower q) f6 = Inr f7" using numeric_rule_returns(5) [OF n(5)] by blast
  obtain f8 where s8: "contains_rule (lower q) f7 = Inr f8" using rule_returns(3) by blast
  obtain f9 where s9: "first_vowel_rule (lower q) f8 = Inr f9" using rule_returns(4) by blast
  have "parse_rules q = Inr f9"
    unfolding parse_rules_chain using s1 s2 s3 s4 s5 s6 s7 s8 s9 by blast
  then show ?thesis by blast
qed

lemma parse_rules_returns_iff: "(\<exists>f. parse_rules q = Inr f) \<longleftrightarrow> numbers_ok (lower q)"
  using parse_rules_returns parse_rules_sel(6) by blast

lemma parse_rules_Inl:
  assumes "parse_rules q = Inl e"
  shows "\<exists>n. int_max_str_digits < n \<and> e = ValueError (int_limit_message n)"
proof -
  from assms have
    "(\<exists>f. longer_rule (lower q) f = Inl e) \<or> (\<exists>f. shorter_rule (lower q) f = Inl e)
     \<or> (\<exists>f. at_least_rule (lower q) f = Inl e) \<or> (\<exists>f. at_most_rule (lower q) f = Inl e)
     \<or> (\<exists>f. exactly_rule (lower q) f = Inl e)"
    unfolding parse_rules_def Let_def fold_simps and_then_Inl
    using rule_Inl by blast
  then show ?thesis using numeric_rule_Inl by blast
qed

lemma parse_rules_cases:
  "(\<exists>f. parse_rules q = Inr f \<and> numbers_ok (lower q))
   \<or> (\<exists>n. int_max_str_digits < n \<and> parse_rules q = Inl (ValueError (int_limit_message n))
           \<and> \<not> numbers_ok (lower q))"
proof (cases "parse_rules q")
  case (Inl e)
  then show ?thesis using parse_rules_Inl [OF Inl] parse_rules_returns [of q] by auto
next
  case (Inr f)
  then show ?thesis using parse_rules_sel(6) [OF Inr] by blast
qed






lemma search_None_number:
  "search longer_re s = None \<longleftrightarrow> first_number ''longer than '' [] s = None"
  "search shorter_re s = None \<longleftrightarrow> first_number ''shorter than '' [] s = None"
  "search at_least_re s = None \<longleftrightarrow> first_number ''at least '' '' character'' s = None"
  "search at_most_re s = None \<longleftrightarrow> first_number ''at most '' '' character'' s = None"
  "search exactly_re s = None \<longleftrightarrow> first_number ''exactly '' '' character'' s = None"
  by (simp_all add: search_longer search_shorter search_at_least search_at_most search_exactly)



lemma parse_of_rules:
  "parse_rules q = Inr f \<Longrightarrow>
   parse_natural_language_query q =
     (if conflicting f then Inl ConflictError
      else if f = empty_filters then Inl NoMatchError else Inr f)"
  "parse_rules q = Inl e \<Longrightarrow> parse_natural_language_query q = Inl e"
  by (simp_all add: parse_natural_language_query_def)


lemma lower_append: "lower (a @ b) = lower a @ lower b"
  by (simp add: lower_def)

lemma str_in_lower: "str_in w q \<Longrightarrow> str_in (lower w) (lower q)"
  unfolding str_in_sublist sublist_def by (metis lower_append)

lemma lower_first_vowel: "lower ''first vowel'' = ''first vowel''"
  by code_simp

lemma parse_returns:
  "parse_rules q = Inr f \<Longrightarrow> f \<noteq> empty_filters \<Longrightarrow>
   (if conflicting f then parse_natural_language_query q = Inl ConflictError
    else parse_natural_language_query q = Inr f)"
  by (simp add: parse_of_rules(1))

subsection \<open>Failures of the phrase interpreter\<close>



text \<open>The third failure: when a number of a length phrase has more than 4300 digits,
  the interpreter fails with the error of \<open>int\<close>, and the handler answers 400 with
  that error's message after its own prefix.\<close>

lemma over_limit_surfaced:
  assumes "\<not> numbers_ok (lower q)"
  shows "\<exists>n. int_max_str_digits < n
           \<and> parse_natural_language_query q = Inl (ValueError (int_limit_message n))
           \<and> filter_by_natural_language string_store q =
               Inl (HTTPException 400
                 (''Unable to parse natural language query: '' @ int_limit_message n))"
proof -
  from assms obtain n where n: "int_max_str_digits < n"
    and r: "parse_rules q = Inl (ValueError (int_limit_message n))"
    using parse_rules_cases [of q] by blast
  have p: "parse_natural_language_query q = Inl (ValueError (int_limit_message n))"
    using r by (simp add: parse_of_rules(2))
  then have "filter_by_natural_language string_store q =
               Inl (HTTPException 400
                 (''Unable to parse natural language query: '' @ int_limit_message n))"
    using limit_message_not_conflicting [of n] by (simp add: filter_by_natural_language_def)
  then show ?thesis using n p by blast
qed

lemma first_number_here:
  assumes "list_all is_digit ds" and "ds \<noteq> []" and "kw \<noteq> []"
  shows "first_number kw [] (kw @ ds @ CHR '' '' # rest) = Some ds"
proof -
  have t: "takeWhile is_digit (ds @ CHR '' '' # rest) = ds"
    using assms(1) by (simp add: list_all_iff is_digit_def)
  have "num_at kw [] (kw @ ds @ CHR '' '' # rest) = Some ds"
    using assms(2) by (simp add: num_at_def t startswith_prefix)
  then show ?thesis using assms(3) by (cases kw) simp_all
qed

text \<open>A phrase with the third failure: its bounds would conflict, but the number of
  "longer than" has 4301 digits, and the answer is 400, not 422.\<close>

lemma over_limit_example:
  "filter_by_natural_language string_store
     (''longer than '' @ replicate 4301 CHR ''1'' @ '' and shorter than 5'')
   = Inl (HTTPException 400
       (''Unable to parse natural language query: '' @ int_limit_message 4301))"
proof -
  let ?q = "''longer than '' @ replicate 4301 CHR ''1'' @ '' and shorter than 5''"
  have d: "list_all is_digit (replicate 4301 CHR ''1'')"
    by (simp add: list_all_iff is_digit_def)
  have l1: "lower ''longer than '' = ''longer than ''" by code_simp
  have l2: "lower '' and shorter than 5'' = '' and shorter than 5''" by code_simp
  have lq: "lower ?q = ?q"
    by (simp only: lower_append l1 l2 lower_digits [OF d])
  have "first_number ''longer than '' [] (''longer than '' @ replicate 4301 CHR ''1''
          @ CHR '' '' # ''and shorter than 5'') = Some (replicate 4301 CHR ''1'')"
    by (rule first_number_here [OF d]) simp_all
  then have n: "first_number ''longer than '' [] ?q = Some (replicate 4301 CHR ''1'')" by simp
  have r: "longer_rule ?q f = Inl (ValueError (int_limit_message 4301))" for f
    unfolding longer_rule_number n by (simp add: int_max_str_digits_def)
  obtain f1 where f1: "palindrome_rule ?q empty_filters = Inr f1" using rule_returns(1) by blast
  obtain f2 where f2: "word_count_rule ?q f1 = Inr f2" using rule_returns(2) by blast
  have a: "and_then (Inl e) rule = Inl e" for e rule by (simp add: and_then_def)
  have b: "and_then (Inr f) rule = rule f" for f rule by (simp add: and_then_def)
  have "parse_rules ?q = Inl (ValueError (int_limit_message 4301))"
    unfolding parse_rules_def Let_def lq fold_simps by (simp only: b f1 f2 r a)
  then have p: "parse_natural_language_query ?q = Inl (ValueError (int_limit_message 4301))"
    by (simp add: parse_of_rules(2))
  have "\<not> within_limit (first_number ''longer than '' [] ?q)"
    unfolding n by (simp add: within_limit_def int_max_str_digits_def)
  then have nn: "\<not> numbers_ok ?q" unfolding numbers_ok_def by blast
  have "\<not> numbers_ok (lower ?q)" unfolding lq by (rule nn)
  from over_limit_surfaced [OF this, of string_store] obtain k where
    k: "parse_natural_language_query ?q = Inl (ValueError (int_limit_message k))"
    and h: "filter_by_natural_language string_store ?q =
               Inl (HTTPException 400
                 (''Unable to parse natural language query: '' @ int_limit_message k))"
    by blast
  from k p have "int_limit_message k = int_limit_message 4301" by simp
  then show ?thesis using h by simp
qed

subsection \<open>The first vowel\<close>

text \<open>
  C5, as stated, says that for every phrase containing "first vowel" the interpreter
  yields filters with \<open>contains_character = 'a'\<close>. The phrase "first vowel longer
  than 20 and shorter than 5" contains "first vowel", and the interpreter yields no
  filters for it: the bounds 21 and 4 conflict, and it fails with \<open>ConflictError\<close>.
\<close>

theorem first_vowel_sets_a_counterexample:
  "str_in ''first vowel'' ''first vowel longer than 20 and shorter than 5''
   \<and> parse_natural_language_query ''first vowel longer than 20 and shorter than 5''
       = Inl ConflictError"
  by code_simp

text \<open>
  C5, amended. For every phrase that contains "first vowel", as written or after
  lower-casing, and in which no number of a length phrase has more than 4300 digits,
  the rules end with \<open>contains_character = 'a'\<close>: the first-vowel rule runs after the
  containment rule and overwrites whatever letter that rule wrote, into any dict
  \<open>f'\<close>. The interpreter returns the filters the rules end with, unless their length
  bounds conflict; then it fails with \<open>ConflictError\<close>.
\<close>

theorem first_vowel_sets_a:
  assumes "str_in ''first vowel'' q \<or> str_in ''first vowel'' (lower q)"
    and "numbers_ok (lower q)"
  shows "\<exists>f. parse_rules q = Inr f
           \<and> contains_character_f f = Some ''a''
           \<and> (if conflicting f then parse_natural_language_query q = Inl ConflictError
               else parse_natural_language_query q = Inr f)
           \<and> first_vowel_rule (lower q) f' = Inr (f'\<lparr>contains_character_f := Some ''a''\<rparr>)"
proof -
  have fv: "str_in ''first vowel'' (lower q)"
    using assms(1) str_in_lower [of "''first vowel''" q] by (auto simp only: lower_first_vowel)
  obtain f where f: "parse_rules q = Inr f" using parse_rules_returns [OF assms(2)] by blast
  have a: "contains_character_f f = Some ''a''"
    using parse_rules_sel(5) [OF f] fv by simp
  then have ne: "f \<noteq> empty_filters" by (auto simp: empty_filters_def)
  have o: "first_vowel_rule (lower q) f' = Inr (f'\<lparr>contains_character_f := Some ''a''\<rparr>)"
    using fv by (simp add: first_vowel_rule_def)
  show ?thesis using f a parse_returns [OF f ne] o by blast
qed

text \<open>The phrase of the claim, in which the containment pattern had extracted the
  \<open>f\<close> of "first".\<close>

theorem first_vowel_sets_a_witness:
  "str_in ''first vowel'' ''palindromic strings that contain the first vowel''
   \<and> numbers_ok (lower ''palindromic strings that contain the first vowel'')
   \<and> search contains_re (lower ''palindromic strings that contain the first vowel'') = Some (Some ''f'')
   \<and> parse_natural_language_query ''palindromic strings that contain the first vowel''
       = Inr \<lparr>is_palindrome_f = Some True, min_length_f = None, max_length_f = None,
              word_count_f = None, contains_character_f = Some ''a''\<rparr>"
proof -
  have h: "str_in ''first vowel'' ''palindromic strings that contain the first vowel''"
    by code_simp
  have ok: "numbers_ok (lower ''palindromic strings that contain the first vowel'')"
    by code_simp
  have g: "search contains_re (lower ''palindromic strings that contain the first vowel'') = Some (Some ''f'')"
    by code_simp
  have r: "parse_rules ''palindromic strings that contain the first vowel''
       = Inr \<lparr>is_palindrome_f = Some True, min_length_f = None, max_length_f = None,
              word_count_f = None, contains_character_f = Some ''a''\<rparr>"
    by code_simp
  have nc: "\<not> conflicting \<lparr>is_palindrome_f = Some True, min_length_f = None, max_length_f = None,
              word_count_f = None, contains_character_f = Some ''a''\<rparr>"
    by (simp add: conflicting_def)
  from first_vowel_sets_a [OF disjI1 [OF h] ok, of empty_filters]
  have "parse_natural_language_query ''palindromic strings that contain the first vowel''
       = Inr \<lparr>is_palindrome_f = Some True, min_length_f = None, max_length_f = None,
              word_count_f = None, contains_character_f = Some ''a''\<rparr>"
    using r nc by auto
  then show ?thesis using h ok g by simp
qed

subsection \<open>Exact lengths\<close>

text \<open>
  C3, as stated, speaks of every phrase that contains "exactly N character(s)" for a
  number \<open>N\<close>. The phrase "exactly 3 characters or exactly 5 characters" contains
  "exactly 5 characters", and the interpreter sets both bounds to 3, not to 5:
  \<open>re.search\<close> returns the leftmost match.
\<close>

theorem exactly_sets_both_counterexample:
  "str_in ''exactly 5 characters'' (lower ''exactly 3 characters or exactly 5 characters'')
   \<and> parse_natural_language_query ''exactly 3 characters or exactly 5 characters''
       = Inr \<lparr>is_palindrome_f = None, min_length_f = Some 3, max_length_f = Some 3,
              word_count_f = None, contains_character_f = None\<rparr>"
  by code_simp

text \<open>
  C3, amended. For every phrase in which no number of a length phrase has more than
  4300 digits, let \<open>N\<close> be the number at the leftmost place of the lower-cased phrase
  where "exactly ", a number and " character" follow each other. Then the rules set
  \<open>min_length = N\<close> and \<open>max_length = N\<close>, whatever the rules for "longer than",
  "shorter than", "at least" and "at most" wrote before (the exactly rule overwrites
  both bounds of any dict \<open>f'\<close>), and the interpreter returns these filters.
\<close>

theorem exactly_sets_both:
  assumes "first_number ''exactly '' '' character'' (lower q) = Some ds"
    and "numbers_ok (lower q)"
  shows "\<exists>f. parse_rules q = Inr f
           \<and> min_length_f f = Some (int_value ds) \<and> max_length_f f = Some (int_value ds)
           \<and> parse_natural_language_query q = Inr f
           \<and> exactly_rule (lower q) f' =
               Inr (f'\<lparr>min_length_f := Some (int_value ds), max_length_f := Some (int_value ds)\<rparr>)"
proof -
  obtain f where f: "parse_rules q = Inr f" using parse_rules_returns [OF assms(2)] by blast
  have lo: "min_length_f f = Some (int_value ds)"
    using parse_rules_sel(3) [OF f] assms(1) by simp
  have hi: "max_length_f f = Some (int_value ds)"
    using parse_rules_sel(4) [OF f] assms(1) by simp
  have nc: "\<not> conflicting f" using lo hi by (simp add: conflicting_def)
  have ne: "f \<noteq> empty_filters" using lo by (auto simp: empty_filters_def)
  have "length ds \<le> int_max_str_digits"
    using assms by (simp add: numbers_ok_def within_limit_def)
  then have o: "exactly_rule (lower q) f' =
               Inr (f'\<lparr>min_length_f := Some (int_value ds), max_length_f := Some (int_value ds)\<rparr>)"
    using assms(1) by (simp add: exactly_rule_number)
  show ?thesis using f lo hi parse_returns [OF f ne] nc o by auto
qed

text \<open>The phrase of the claim, and a phrase whose earlier bounds, 21 and 4, are
  overwritten.\<close>

theorem exactly_sets_both_witness:
  "first_number ''exactly '' '' character'' (lower ''exactly 7 characters'') = Some ''7''
   \<and> numbers_ok (lower ''exactly 7 characters'')
   \<and> parse_natural_language_query ''exactly 7 characters''
       = Inr \<lparr>is_palindrome_f = None, min_length_f = Some 7, max_length_f = Some 7,
              word_count_f = None, contains_character_f = None\<rparr>
   \<and> first_number ''exactly '' '' character''
        (lower ''longer than 20 and shorter than 5 but Exactly 12 characters'') = Some ''12''
   \<and> parse_natural_language_query ''longer than 20 and shorter than 5 but Exactly 12 characters''
       = Inr \<lparr>is_palindrome_f = None, min_length_f = Some 12, max_length_f = Some 12,
              word_count_f = None, contains_character_f = None\<rparr>"
proof -
  have h1: "first_number ''exactly '' '' character'' (lower ''exactly 7 characters'') = Some ''7''"
    by code_simp
  have k1: "numbers_ok (lower ''exactly 7 characters'')" by code_simp
  have h2: "first_number ''exactly '' '' character''
        (lower ''longer than 20 and shorter than 5 but Exactly 12 characters'') = Some ''12''"
    by code_simp
  have k2: "numbers_ok (lower ''longer than 20 and shorter than 5 but Exactly 12 characters'')"
    by code_simp
  have r1: "parse_rules ''exactly 7 characters''
       = Inr \<lparr>is_palindrome_f = None, min_length_f = Some 7, max_length_f = Some 7,
              word_count_f = None, contains_character_f = None\<rparr>"
    by code_simp
  have r2: "parse_rules ''longer than 20 and shorter than 5 but Exactly 12 characters''
       = Inr \<lparr>is_palindrome_f = None, min_length_f = Some 12, max_length_f = Some 12,
              word_count_f = None, contains_character_f = None\<rparr>"
    by code_simp
  from exactly_sets_both [OF h1 k1, of empty_filters]
  have p1: "parse_natural_language_query ''exactly 7 characters''
       = Inr \<lparr>is_palindrome_f = None, min_length_f = Some 7, max_length_f = Some 7,
              word_count_f = None, contains_character_f = None\<rparr>"
    using r1 by auto
  from exactly_sets_both [OF h2 k2, of empty_filters]
  have p2: "parse_natural_language_query ''longer than 20 and shorter than 5 but Exactly 12 characters''
       = Inr \<lparr>is_palindrome_f = None, min_length_f = Some 12, max_length_f = Some 12,
              word_count_f = None, contains_character_f = None\<rparr>"
    using r2 by auto
  show ?thesis using h1 k1 h2 p1 p2 by simp
qed

subsection \<open>Strict bounds\<close>

text \<open>
  C4, as stated, speaks of every phrase that contains "longer than N" while no later
  rule writes \<open>min_length\<close>. The phrase "longer than 3 or longer than 9" contains
  "longer than 9", neither the at-least rule nor the exactly rule matches it, and the
  interpreter sets \<open>min_length = 4\<close>, not 10: \<open>re.search\<close> returns the leftmost match.
\<close>

theorem strict_bounds_counterexample:
  "str_in ''longer than 9'' (lower ''longer than 3 or longer than 9'')
   \<and> search at_least_re (lower ''longer than 3 or longer than 9'') = None
   \<and> search exactly_re (lower ''longer than 3 or longer than 9'') = None
   \<and> parse_natural_language_query ''longer than 3 or longer than 9''
       = Inr \<lparr>is_palindrome_f = None, min_length_f = Some 4, max_length_f = None,
              word_count_f = None, contains_character_f = None\<rparr>"
  by code_simp

text \<open>
  C4, amended. For every phrase in which no number of a length phrase has more than
  4300 digits, let \<open>N\<close> be the number at the leftmost place of the lower-cased phrase
  where "longer than " is followed by a number. When neither the at-least rule nor
  the exactly rule matches, the rules set \<open>min_length = N + 1\<close>. Likewise, with \<open>N'\<close>
  the number at the leftmost "shorter than " followed by a number, when neither the
  at-most rule nor the exactly rule matches, the rules set \<open>max_length = N' - 1\<close>.
  In both cases the interpreter returns the filters the rules end with, unless the
  two bounds conflict; then it fails with \<open>ConflictError\<close>.
\<close>

theorem strict_bounds:
  "(first_number ''longer than '' [] (lower q) = Some ds
      \<and> search at_least_re (lower q) = None \<and> search exactly_re (lower q) = None
      \<and> numbers_ok (lower q)
    \<longrightarrow> (\<exists>f. parse_rules q = Inr f \<and> min_length_f f = Some (int_value ds + 1)
             \<and> (if conflicting f then parse_natural_language_query q = Inl ConflictError
                 else parse_natural_language_query q = Inr f)))
   \<and> (first_number ''shorter than '' [] (lower q) = Some ds'
      \<and> search at_most_re (lower q) = None \<and> search exactly_re (lower q) = None
      \<and> numbers_ok (lower q)
    \<longrightarrow> (\<exists>f. parse_rules q = Inr f \<and> max_length_f f = Some (int_value ds' - 1)
             \<and> (if conflicting f then parse_natural_language_query q = Inl ConflictError
                 else parse_natural_language_query q = Inr f)))"
proof -
  have lo: "\<exists>f. parse_rules q = Inr f \<and> min_length_f f = Some (int_value ds + 1)
             \<and> (if conflicting f then parse_natural_language_query q = Inl ConflictError
                 else parse_natural_language_query q = Inr f)"
    if h: "first_number ''longer than '' [] (lower q) = Some ds"
       "search at_least_re (lower q) = None" "search exactly_re (lower q) = None"
       "numbers_ok (lower q)"
  proof -
    obtain f where f: "parse_rules q = Inr f" using parse_rules_returns [OF h(4)] by blast
    have m: "min_length_f f = Some (int_value ds + 1)"
      using parse_rules_sel(3) [OF f] h(1-3) by (simp add: search_None_number)
    then have ne: "f \<noteq> empty_filters" by (auto simp: empty_filters_def)
    show ?thesis using f m parse_returns [OF f ne] by blast
  qed
  have hi: "\<exists>f. parse_rules q = Inr f \<and> max_length_f f = Some (int_value ds' - 1)
             \<and> (if conflicting f then parse_natural_language_query q = Inl ConflictError
                 else parse_natural_language_query q = Inr f)"
    if h: "first_number ''shorter than '' [] (lower q) = Some ds'"
       "search at_most_re (lower q) = None" "search exactly_re (lower q) = None"
       "numbers_ok (lower q)"
  proof -
    obtain f where f: "parse_rules q = Inr f" using parse_rules_returns [OF h(4)] by blast
    have m: "max_length_f f = Some (int_value ds' - 1)"
      using parse_rules_sel(4) [OF f] h(1-3) by (simp add: search_None_number)
    then have ne: "f \<noteq> empty_filters" by (auto simp: empty_filters_def)
    show ?thesis using f m parse_returns [OF f ne] by blast
  qed
  show ?thesis using lo hi by blast
qed

text \<open>The phrase of the claim, and its counterpart for "shorter than".\<close>

theorem strict_bounds_witness:
  "first_number ''longer than '' [] (lower ''strings longer than 10 characters'') = Some ''10''
   \<and> numbers_ok (lower ''strings longer than 10 characters'')
   \<and> parse_natural_language_query ''strings longer than 10 characters''
       = Inr \<lparr>is_palindrome_f = None, min_length_f = Some 11, max_length_f = None,
              word_count_f = None, contains_character_f = None\<rparr>
   \<and> first_number ''shorter than '' [] (lower ''strings shorter than 5 characters'') = Some ''5''
   \<and> numbers_ok (lower ''strings shorter than 5 characters'')
   \<and> parse_natural_language_query ''strings shorter than 5 characters''
       = Inr \<lparr>is_palindrome_f = None, min_length_f = None, max_length_f = Some 4,
              word_count_f = None, contains_character_f = None\<rparr>"
proof -
  have h1: "first_number ''longer than '' [] (lower ''strings longer than 10 characters'') = Some ''10''"
    by code_simp
  have n1: "search at_least_re (lower ''strings longer than 10 characters'') = None" by code_simp
  have n2: "search exactly_re (lower ''strings longer than 10 characters'') = None" by code_simp
  have k1: "numbers_ok (lower ''strings longer than 10 characters'')" by code_simp
  have h2: "first_number ''shorter than '' [] (lower ''strings shorter than 5 characters'') = Some ''5''"
    by code_simp
  have m1: "search at_most_re (lower ''strings shorter than 5 characters'') = None" by code_simp
  have m2: "search exactly_re (lower ''strings shorter than 5 characters'') = None" by code_simp
  have k2: "numbers_ok (lower ''strings shorter than 5 characters'')" by code_simp
  have r1: "parse_rules ''strings longer than 10 characters''
       = Inr \<lparr>is_palindrome_f = None, min_length_f = Some 11, max_length_f = None,
              word_count_f = None, contains_character_f = None\<rparr>"
    by code_simp
  have r2: "parse_rules ''strings shorter than 5 characters''
       = Inr \<lparr>is_palindrome_f = None, min_length_f = None, max_length_f = Some 4,
              word_count_f = None, contains_character_f = None\<rparr>"
    by code_simp
  note t1 = strict_bounds [of "''strings longer than 10 characters''" "''10''" "''5''"]
  note t2 = strict_bounds [of "''strings shorter than 5 characters''" "''10''" "''5''"]
  have p1: "parse_natural_language_query ''strings longer than 10 characters''
       = Inr \<lparr>is_palindrome_f = None, min_length_f = Some 11, max_length_f = None,
              word_count_f = None, contains_character_f = None\<rparr>"
    using t1 h1 n1 n2 k1 r1 by (auto simp: conflicting_def)
  have p2: "parse_natural_language_query ''strings shorter than 5 characters''
       = Inr \<lparr>is_palindrome_f = None, min_length_f = None, max_length_f = Some 4,
              word_count_f = None, contains_character_f = None\<rparr>"
    using t2 h2 m1 m2 k2 r2 by (auto simp: conflicting_def)
  show ?thesis using h1 k1 h2 k2 p1 p2 by simp
qed

subsection \<open>The containment pattern\<close>

lemma not_quote_az: "is_az c \<Longrightarrow> \<not> is_quote c"
  by (auto simp: is_az_def is_quote_def)

lemma match_letter_none:
  "\<not> letter_next u \<Longrightarrow>
   match (seq [Opt (Cls is_quote), Grp (Cls is_az), Opt (Cls is_quote)]) (u, g) = []"
  by (auto simp: letter_next_def split: list.splits)

lemma match_letter_here:
  "is_az c \<Longrightarrow>
   \<exists>r others. match (seq [Opt (Cls is_quote), Grp (Cls is_az), Opt (Cls is_quote)]) (c # rest, g)
     = (r, Some [c]) # others"
  by (cases rest) (auto simp: not_quote_az)

lemma letter_next_marker:
  "startswith ''the '' u \<or> startswith ''letter '' u \<or> startswith ''character '' u \<Longrightarrow>
   letter_next u"
  by (cases u) (auto simp: letter_next_def is_az_def)

lemma match_opt_lit:
  "match (Opt (lit w)) (t, g)
     = (if startswith w t then [(drop (length w) t, g)] else []) @ [(t, g)]"
  by (simp only: match.simps(6) match_lit)

lemma match_opt_alt_lit:
  "match (Opt (Alt (lit w) (lit w'))) (t, g)
     = ((if startswith w t then [(drop (length w) t, g)] else [])
        @ (if startswith w' t then [(drop (length w') t, g)] else [])) @ [(t, g)]"
  by (simp only: match.simps(5,6) match_lit)

lemma match_marked_none:
  assumes "\<not> letter_next u"
  shows "match (seq [Opt (Alt (lit ''letter '') (lit ''character '')),
                     Opt (Cls is_quote), Grp (Cls is_az), Opt (Cls is_quote)]) (u, g) = []"
proof -
  have n: "\<not> startswith ''letter '' u" "\<not> startswith ''character '' u"
    using assms letter_next_marker by blast+
  have b: "match (Opt (Alt (lit ''letter '') (lit ''character ''))) (u, g) = [(u, g)]"
    using n by (simp only: match.simps(5,6) match_lit) simp
  have "match (seq [Opt (Alt (lit ''letter '') (lit ''character '')),
                     Opt (Cls is_quote), Grp (Cls is_az), Opt (Cls is_quote)]) (u, g)
        = match (seq [Opt (Cls is_quote), Grp (Cls is_az), Opt (Cls is_quote)]) (u, g)"
    by (simp only: seq.simps match.simps(4) b list.map concat.simps append_Nil2)
  then show ?thesis using match_letter_none [OF assms] by simp
qed

lemma concat_skip1:
  "(A \<Longrightarrow> f x = []) \<Longrightarrow> concat (map f ((if A then [x] else []) @ [z])) = f z"
  by (cases A) simp_all

lemma concat_skip2:
  "(A \<Longrightarrow> f x = []) \<Longrightarrow> (B \<Longrightarrow> f y = []) \<Longrightarrow>
   concat (map f (((if A then [x] else []) @ (if B then [y] else [])) @ [z])) = f z"
  by (cases A; cases B) simp_all

lemma match_marked_here:
  assumes az: "is_az c"
    and nl: "\<not> (startswith ''letter '' (c # rest) \<and> letter_next (drop 7 (c # rest)))"
    and nc: "\<not> (startswith ''character '' (c # rest) \<and> letter_next (drop 10 (c # rest)))"
  shows "\<exists>r others.
    match (seq [Opt (Alt (lit ''letter '') (lit ''character '')),
                Opt (Cls is_quote), Grp (Cls is_az), Opt (Cls is_quote)]) (c # rest, g)
      = (r, Some [c]) # others"
proof -
  let ?L = "seq [Opt (Cls is_quote), Grp (Cls is_az), Opt (Cls is_quote)]"
  have len: "length ''letter '' = 7" "length ''character '' = 10" by simp_all
  have l1: "match ?L (drop (length ''letter '') (c # rest), g) = []"
    if "startswith ''letter '' (c # rest)"
    unfolding len using nl that match_letter_none by blast
  have l2: "match ?L (drop (length ''character '') (c # rest), g) = []"
    if "startswith ''character '' (c # rest)"
    unfolding len using nc that match_letter_none by blast
  have "match (Seq (Opt (Alt (lit ''letter '') (lit ''character ''))) ?L) (c # rest, g)
        = match ?L (c # rest, g)"
    unfolding match.simps(4) match_opt_alt_lit by (rule concat_skip2, erule l1, erule l2)
  then have e: "match (seq [Opt (Alt (lit ''letter '') (lit ''character '')),
                Opt (Cls is_quote), Grp (Cls is_az), Opt (Cls is_quote)]) (c # rest, g)
        = match ?L (c # rest, g)"
    by (simp only: seq.simps)
  show ?thesis unfolding e by (rule match_letter_here [OF az])
qed

lemma match_contains_tail:
  assumes az: "is_az c"
    and nt: "\<not> (startswith ''the '' (c # rest) \<and> letter_next (drop 4 (c # rest)))"
    and nl: "\<not> (startswith ''letter '' (c # rest) \<and> letter_next (drop 7 (c # rest)))"
    and nc: "\<not> (startswith ''character '' (c # rest) \<and> letter_next (drop 10 (c # rest)))"
  shows "\<exists>r others.
    match (seq [Opt (lit ''the ''), Opt (Alt (lit ''letter '') (lit ''character '')),
                Opt (Cls is_quote), Grp (Cls is_az), Opt (Cls is_quote)]) (c # rest, g)
      = (r, Some [c]) # others"
proof -
  let ?M = "seq [Opt (Alt (lit ''letter '') (lit ''character '')),
                Opt (Cls is_quote), Grp (Cls is_az), Opt (Cls is_quote)]"
  have len: "length ''the '' = 4" by simp
  have m: "match ?M (drop (length ''the '') (c # rest), g) = []"
    if "startswith ''the '' (c # rest)"
    unfolding len using nt that match_marked_none by blast
  have "match (Seq (Opt (lit ''the '')) ?M) (c # rest, g) = match ?M (c # rest, g)"
    unfolding match.simps(4) match_opt_lit by (rule concat_skip1, erule m)
  then have e: "match (seq [Opt (lit ''the ''), Opt (Alt (lit ''letter '') (lit ''character '')),
                Opt (Cls is_quote), Grp (Cls is_az), Opt (Cls is_quote)]) (c # rest, g)
        = match ?M (c # rest, g)"
    by (simp only: seq.simps)
  show ?thesis unfolding e by (rule match_marked_here [OF az nl nc])
qed

lemma match_contains_here:
  assumes sfx: "sfx = [] \<or> sfx = ''s'' \<or> sfx = ''ing''"
    and az: "is_az c"
    and nt: "\<not> (startswith ''the '' (c # rest) \<and> letter_next (drop 4 (c # rest)))"
    and nl: "\<not> (startswith ''letter '' (c # rest) \<and> letter_next (drop 7 (c # rest)))"
    and nc: "\<not> (startswith ''character '' (c # rest) \<and> letter_next (drop 10 (c # rest)))"
  shows "\<exists>r others. match contains_re (''contain'' @ sfx @ '' '' @ c # rest, g) = (r, Some [c]) # others"
proof -
  define T where "T = seq [Opt (lit ''the ''), Opt (Alt (lit ''letter '') (lit ''character '')),
                Opt (Cls is_quote), Grp (Cls is_az), Opt (Cls is_quote)]"
  obtain r others where t: "match T (c # rest, g) = (r, Some [c]) # others"
    using match_contains_tail [OF az nt nl nc] unfolding T_def by blast
  have sp: "match (Seq (lit '' '') T) (CHR '' '' # c # rest, g) = match T (c # rest, g)"
    by (simp only: match.simps(4) match_lit) simp
  have re: "contains_re = Seq (lit ''contain'') (Seq (Opt (Alt (lit ''s'') (lit ''ing''))) (Seq (lit '' '') T))"
    unfolding contains_re_def T_def by (simp only: seq.simps)
  have start: "match contains_re (''contain'' @ u, g)
                 = match (Seq (Opt (Alt (lit ''s'') (lit ''ing''))) (Seq (lit '' '') T)) (u, g)" for u
    unfolding re by (simp only: match.simps(4) match_lit) (simp add: startswith_prefix)
  from sfx consider "sfx = []" | "sfx = ''s''" | "sfx = ''ing''" by blast
  then have "match (Seq (Opt (Alt (lit ''s'') (lit ''ing''))) (Seq (lit '' '') T)) (sfx @ '' '' @ c # rest, g)
              = match T (c # rest, g)"
  proof cases
    case 1
    have "match (Opt (Alt (lit ''s'') (lit ''ing''))) (CHR '' '' # c # rest, g) = [(CHR '' '' # c # rest, g)]"
      by (simp only: match.simps(5,6) match_lit) simp
    then show ?thesis using 1 sp by (simp only: match.simps(4)) simp
  next
    case 2
    have o: "match (Opt (Alt (lit ''s'') (lit ''ing''))) (''s '' @ c # rest, g)
           = [(CHR '' '' # c # rest, g), (''s '' @ c # rest, g)]"
      by (simp only: match.simps(5,6) match_lit) simp
    have f: "match (Seq (lit '' '') T) (''s '' @ c # rest, g) = []"
      by (simp only: match.simps(4) match_lit) simp
    show ?thesis using 2 o f sp by (simp only: match.simps(4)) simp
  next
    case 3
    have o: "match (Opt (Alt (lit ''s'') (lit ''ing''))) (''ing '' @ c # rest, g)
           = [(CHR '' '' # c # rest, g), (''ing '' @ c # rest, g)]"
      by (simp only: match.simps(5,6) match_lit) simp
    have f: "match (Seq (lit '' '') T) (''ing '' @ c # rest, g) = []"
      by (simp only: match.simps(4) match_lit) simp
    show ?thesis using 3 o f sp by (simp only: match.simps(4)) simp
  qed
  then show ?thesis using t start [of "sfx @ '' '' @ c # rest"] by simp
qed

lemma match_contains_start: "\<not> startswith ''contain'' s \<Longrightarrow> match contains_re (s, g) = []"
  unfolding contains_re_def by (simp only: seq.simps match.simps(4) match_lit) simp

lemma search_contains_leftmost:
  assumes q: "s = pre @ ''contain'' @ sfx @ '' '' @ c # rest"
    and sfx: "sfx = [] \<or> sfx = ''s'' \<or> sfx = ''ing''"
    and az: "is_az c"
    and first: "list_all (\<lambda>i. match contains_re (drop i s, None) = []) [0..<length pre]"
    and nt: "\<not> (startswith ''the '' (c # rest) \<and> letter_next (drop 4 (c # rest)))"
    and nl: "\<not> (startswith ''letter '' (c # rest) \<and> letter_next (drop 7 (c # rest)))"
    and nc: "\<not> (startswith ''character '' (c # rest) \<and> letter_next (drop 10 (c # rest)))"
  shows "search contains_re s = Some (Some [c])"
proof -
  have "match contains_re (drop i (pre @ (''contain'' @ sfx @ '' '' @ c # rest)), None) = []"
    if "i < length pre" for i
    using first that unfolding q by (simp add: list_all_iff)
  then have "search contains_re (pre @ (''contain'' @ sfx @ '' '' @ c # rest))
              = search contains_re (''contain'' @ sfx @ '' '' @ c # rest)"
    by (intro search_skip) simp_all
  moreover obtain r others
    where "match contains_re (''contain'' @ sfx @ '' '' @ c # rest, None) = (r, Some [c]) # others"
    using match_contains_here [OF sfx az nt nl nc] by blast
  ultimately show ?thesis using q search_hit by simp
qed

text \<open>
  C10, as stated, speaks of every phrase in which "contain", "contains" or
  "containing" is followed by a space and a word that begins with a lowercase letter,
  and says that \<open>contains_character\<close> becomes that word's first letter. In "strings
  containing the letter z" the word after the space is "the", and the interpreter
  sets \<open>contains_character = 'z'\<close>, not \<open>'t'\<close>: the pattern skips an optional "the " and
  an optional "letter " or "character " when a letter follows them. Two more phrases
  have "containing multiple" and do not end with \<open>'m'\<close>: one also has "first vowel",
  which the last rule turns into \<open>'a'\<close>, and one has an earlier "contain" with a quoted
  \<open>x\<close>, which is the leftmost match.
\<close>

theorem contains_first_letter_counterexample:
  "lower ''strings containing the letter z'' = ''strings '' @ ''containing'' @ '' '' @ ''the letter z''
   \<and> parse_natural_language_query ''strings containing the letter z''
       = Inr \<lparr>is_palindrome_f = None, min_length_f = None, max_length_f = None,
              word_count_f = None, contains_character_f = Some ''z''\<rparr>
   \<and> parse_natural_language_query ''strings containing multiple first vowel''
       = Inr \<lparr>is_palindrome_f = None, min_length_f = None, max_length_f = None,
              word_count_f = None, contains_character_f = Some ''a''\<rparr>
   \<and> parse_natural_language_query
        (''contain '' @ [CHR 0x27] @ ''x'' @ [CHR 0x27] @ '' or containing multiple words'')
       = Inr \<lparr>is_palindrome_f = None, min_length_f = None, max_length_f = None,
              word_count_f = None, contains_character_f = Some ''x''\<rparr>"
  by code_simp

text \<open>
  C10, amended. Take a phrase without "first vowel" in which no number of a length
  phrase has more than 4300 digits. Let its lower-casing have "contain", then
  nothing, "s" or "ing", then a space, then a lowercase letter \<open>c\<close>, at a place before
  which the containment pattern matches nowhere, and let the text from \<open>c\<close> on not
  begin with "the ", "letter " or "character " followed by a lowercase letter, bare
  or after a quote. Then the rules set \<open>contains_character = c\<close>, with no "letter" or
  "character" marker and no quoting needed. The interpreter returns the filters the
  rules end with, unless their length bounds conflict; then it fails with
  \<open>ConflictError\<close>.
\<close>

theorem contains_first_letter:
  assumes "lower q = pre @ ''contain'' @ sfx @ '' '' @ c # rest"
    and "sfx = [] \<or> sfx = ''s'' \<or> sfx = ''ing''"
    and "is_az c"
    and "list_all (\<lambda>i. match contains_re (drop i (lower q), None) = []) [0..<length pre]"
    and "\<not> (startswith ''the '' (c # rest) \<and> letter_next (drop 4 (c # rest)))"
    and "\<not> (startswith ''letter '' (c # rest) \<and> letter_next (drop 7 (c # rest)))"
    and "\<not> (startswith ''character '' (c # rest) \<and> letter_next (drop 10 (c # rest)))"
    and "\<not> str_in ''first vowel'' (lower q)"
    and "numbers_ok (lower q)"
  shows "\<exists>f. parse_rules q = Inr f
           \<and> contains_character_f f = Some [c]
           \<and> (if conflicting f then parse_natural_language_query q = Inl ConflictError
               else parse_natural_language_query q = Inr f)"
proof -
  have s: "search contains_re (lower q) = Some (Some [c])"
    using assms(1-7) by (rule search_contains_leftmost)
  obtain f where f: "parse_rules q = Inr f" using parse_rules_returns [OF assms(9)] by blast
  have c: "contains_character_f f = Some [c]"
    using parse_rules_sel(5) [OF f] s assms(8) by simp
  then have ne: "f \<noteq> empty_filters" by (auto simp: empty_filters_def)
  show ?thesis using f c parse_returns [OF f ne] by blast
qed

text \<open>The phrase of the claim, and a phrase with an earlier "contain" that the pattern
  does not match and with a "the " that it cannot skip: the \<open>t\<close> is extracted.\<close>

theorem contains_first_letter_witness:
  "lower ''strings containing multiple words''
     = ''strings '' @ ''contain'' @ ''ing'' @ '' '' @ CHR ''m'' # ''ultiple words''
   \<and> is_az CHR ''m''
   \<and> parse_natural_language_query ''strings containing multiple words''
       = Inr \<lparr>is_palindrome_f = None, min_length_f = None, max_length_f = None,
              word_count_f = None, contains_character_f = Some ''m''\<rparr>
   \<and> lower ''Container containing the 5''
     = ''container '' @ ''contain'' @ ''ing'' @ '' '' @ CHR ''t'' # ''he 5''
   \<and> parse_natural_language_query ''Container containing the 5''
       = Inr \<lparr>is_palindrome_f = None, min_length_f = None, max_length_f = None,
              word_count_f = None, contains_character_f = Some ''t''\<rparr>"
proof -
  have sfx: "(''ing'' :: string) = [] \<or> ''ing'' = ''s'' \<or> ''ing'' = ''ing''" by simp
  have a1: "lower ''strings containing multiple words''
     = ''strings '' @ ''contain'' @ ''ing'' @ '' '' @ CHR ''m'' # ''ultiple words''"
    by code_simp
  have a3: "is_az CHR ''m''" by code_simp
  have a4: "list_all (\<lambda>i. match contains_re (drop i (lower ''strings containing multiple words''), None) = [])
              [0..<length ''strings '']"
    by code_simp
  have a5: "\<not> (startswith ''the '' (CHR ''m'' # ''ultiple words'')
              \<and> letter_next (drop 4 (CHR ''m'' # ''ultiple words'')))" by code_simp
  have a6: "\<not> (startswith ''letter '' (CHR ''m'' # ''ultiple words'')
              \<and> letter_next (drop 7 (CHR ''m'' # ''ultiple words'')))" by code_simp
  have a7: "\<not> (startswith ''character '' (CHR ''m'' # ''ultiple words'')
              \<and> letter_next (drop 10 (CHR ''m'' # ''ultiple words'')))" by code_simp
  have a8: "\<not> str_in ''first vowel'' (lower ''strings containing multiple words'')" by code_simp
  have a9: "numbers_ok (lower ''strings containing multiple words'')" by code_simp
  have ar: "parse_rules ''strings containing multiple words''
       = Inr \<lparr>is_palindrome_f = None, min_length_f = None, max_length_f = None,
              word_count_f = None, contains_character_f = Some ''m''\<rparr>"
    by code_simp
  have b1: "lower ''Container containing the 5''
     = ''container '' @ ''contain'' @ ''ing'' @ '' '' @ CHR ''t'' # ''he 5''"
    by code_simp
  have b3: "is_az CHR ''t''" by code_simp
  have b4: "list_all (\<lambda>i. match contains_re (drop i (lower ''Container containing the 5''), None) = [])
              [0..<length ''container '']"
    by code_simp
  have b5: "\<not> (startswith ''the '' (CHR ''t'' # ''he 5'')
              \<and> letter_next (drop 4 (CHR ''t'' # ''he 5'')))" by code_simp
  have b6: "\<not> (startswith ''letter '' (CHR ''t'' # ''he 5'')
              \<and> letter_next (drop 7 (CHR ''t'' # ''he 5'')))" by code_simp
  have b7: "\<not> (startswith ''character '' (CHR ''t'' # ''he 5'')
              \<and> letter_next (drop 10 (CHR ''t'' # ''he 5'')))" by code_simp
  have b8: "\<not> str_in ''first vowel'' (lower ''Container containing the 5'')" by code_simp
  have b9: "numbers_ok (lower ''Container containing the 5'')" by code_simp
  have br: "parse_rules ''Container containing the 5''
       = Inr \<lparr>is_palindrome_f = None, min_length_f = None, max_length_f = None,
              word_count_f = None, contains_character_f = Some ''t''\<rparr>"
    by code_simp
  have nc: "\<not> conflicting \<lparr>is_palindrome_f = None, min_length_f = None, max_length_f = None,
              word_count_f = None, contains_character_f = x\<rparr>" for x
    by (simp add: conflicting_def)
  from contains_first_letter [OF a1 sfx a3 a4 a5 a6 a7 a8 a9]
  have p1: "parse_natural_language_query ''strings containing multiple words''
       = Inr \<lparr>is_palindrome_f = None, min_length_f = None, max_length_f = None,
              word_count_f = None, contains_character_f = Some ''m''\<rparr>"
    using ar nc by auto
  from contains_first_letter [OF b1 sfx b3 b4 b5 b6 b7 b8 b9]
  have p2: "parse_natural_language_query ''Container containing the 5''
       = Inr \<lparr>is_palindrome_f = None, min_length_f = None, max_length_f = None,
              word_count_f = None, contains_character_f = Some ''t''\<rparr>"
    using br nc by auto
  show ?thesis using a1 a3 b1 p1 p2 by simp
qed

end
